theory Spec2Isabelle
  imports Main
begin

section \<open>Chess rules engine of chessmaniapygame.py\<close>

text \<open>
  The classes \<open>Piece\<close> and \<open>Board\<close> of the source, embedded shallowly. Python integers are
  \<open>int\<close>, a square is a pair of them, and the board is the list of eight row lists the
  source builds in \<open>reset\<close>. A Python exception is a value of \<open>error\<close>; a method that
  mutates \<open>self\<close> takes the board and returns the board it leaves behind.
\<close>

subsection \<open>Data\<close>

datatype PieceType = PAWN | ROOK | KNIGHT | BISHOP | QUEEN | KING

datatype Color = WHITE | BLACK

record Piece =
  color :: Color
  type :: PieceType

type_synonym square = "int \<times> int"

type_synonym grid = "Piece option list list"

datatype error = IndexError | AttributeError

record Board =
  board :: grid
  en_passant_target :: "square option"
  current_player :: Color
  move_history :: "(square \<times> square) list"

definition ROWS :: int where
  "ROWS = 8"

definition COLS :: int where
  "COLS = 8"

subsection \<open>Python list indexing\<close>

text \<open>
  \<open>xs[i]\<close> accepts \<open>-len(xs) \<le> i < len(xs)\<close>, a negative index counting from the end, and
  raises IndexError otherwise. \<open>self.board[r][c]\<close> indexes the outer list and then the row.
\<close>

definition py_index :: "int \<Rightarrow> nat \<Rightarrow> nat option" where
  "py_index i n =
     (if 0 \<le> i \<and> i < int n then Some (nat i)
      else if - int n \<le> i \<and> i < 0 then Some (nat (i + int n))
      else None)"

definition getitem2 :: "grid \<Rightarrow> int \<Rightarrow> int \<Rightarrow> error + Piece option" where
  "getitem2 g r c =
     (case py_index r (length g) of
        None \<Rightarrow> Inl IndexError
      | Some i \<Rightarrow>
          (case py_index c (length (g ! i)) of
             None \<Rightarrow> Inl IndexError
           | Some j \<Rightarrow> Inr (g ! i ! j)))"

definition setitem2 :: "grid \<Rightarrow> int \<Rightarrow> int \<Rightarrow> Piece option \<Rightarrow> error + grid" where
  "setitem2 g r c v =
     (case py_index r (length g) of
        None \<Rightarrow> Inl IndexError
      | Some i \<Rightarrow>
          (case py_index c (length (g ! i)) of
             None \<Rightarrow> Inl IndexError
           | Some j \<Rightarrow> Inr (g[i := (g ! i)[j := v]])))"

text \<open>
  Every board the program builds has eight rows of eight cells: \<open>reset\<close> creates it so and no
  method changes the length of a list.
\<close>

definition wf_grid :: "grid \<Rightarrow> bool" where
  "wf_grid g = (length g = 8 \<and> (\<forall>row \<in> set g. length row = 8))"

subsection \<open>Board: construction and access\<close>

definition piece_order :: "PieceType list" where
  "piece_order = [ROOK, KNIGHT, BISHOP, QUEEN, KING, BISHOP, KNIGHT, ROOK]"

text \<open>The body of the loop of \<open>set_initial_position\<close>, for one column.\<close>

definition initial_column :: "grid \<Rightarrow> nat \<Rightarrow> grid" where
  "initial_column g col =
     (let g = g[0 := (g ! 0)[col := Some \<lparr>color = BLACK, type = piece_order ! col\<rparr>]];
          g = g[1 := (g ! 1)[col := Some \<lparr>color = BLACK, type = PAWN\<rparr>]];
          g = g[6 := (g ! 6)[col := Some \<lparr>color = WHITE, type = PAWN\<rparr>]];
          g = g[7 := (g ! 7)[col := Some \<lparr>color = WHITE, type = piece_order ! col\<rparr>]]
      in g)"

definition set_initial_position :: "grid \<Rightarrow> grid" where
  "set_initial_position g = foldl initial_column g [0..<8]"

definition reset :: Board where
  "reset =
     \<lparr>board = set_initial_position (replicate 8 (replicate 8 None)),
      en_passant_target = None,
      current_player = WHITE,
      move_history = []\<rparr>"

definition is_valid_position :: "int \<Rightarrow> int \<Rightarrow> bool" where
  "is_valid_position row col = (0 \<le> row \<and> row < ROWS \<and> 0 \<le> col \<and> col < COLS)"

text \<open>
  \<open>get_piece\<close> indexes the rows only after \<open>is_valid_position\<close>, so on a board of eight rows
  of eight cells its read is in range and cannot raise.
\<close>

definition get_piece :: "Board \<Rightarrow> int \<Rightarrow> int \<Rightarrow> Piece option" where
  "get_piece self row col =
     (if is_valid_position row col then board self ! nat row ! nat col else None)"

definition is_enemy :: "Piece option \<Rightarrow> Piece option \<Rightarrow> bool" where
  "is_enemy piece1 piece2 =
     (case (piece1, piece2) of
        (Some p1, Some p2) \<Rightarrow> color p1 \<noteq> color p2
      | _ \<Rightarrow> False)"

subsection \<open>make_move\<close>

text \<open>
  The result pairs the exception raised, if any, with the board as the call leaves it: an
  exception in the middle of the method keeps the cells already written.
\<close>

definition make_move :: "Board \<Rightarrow> square \<Rightarrow> square \<Rightarrow> error option \<times> Board" where
  "make_move self start end =
     (let (start_row, start_col) = start; (end_row, end_col) = end in
      case getitem2 (board self) start_row start_col of
        Inl e \<Rightarrow> (Some e, self)
      | Inr None \<Rightarrow> (Some AttributeError, self)
      | Inr (Some piece) \<Rightarrow>
          (case (if type piece = PAWN \<and> Some (end_row, end_col) = en_passant_target self
                 then setitem2 (board self) start_row end_col None
                 else Inr (board self)) of
             Inl e \<Rightarrow> (Some e, self)
           | Inr g1 \<Rightarrow>
               (case setitem2 g1 end_row end_col (Some piece) of
                  Inl e \<Rightarrow> (Some e, self\<lparr>board := g1\<rparr>)
                | Inr g2 \<Rightarrow>
                    (case setitem2 g2 start_row start_col None of
                       Inl e \<Rightarrow> (Some e, self\<lparr>board := g2\<rparr>)
                     | Inr g3 \<Rightarrow>
                         (case (if type piece = PAWN \<and> (end_row = 0 \<or> end_row = 7)
                                then setitem2 g3 end_row end_col
                                       (Some \<lparr>color = color piece, type = QUEEN\<rparr>)
                                else Inr g3) of
                            Inl e \<Rightarrow> (Some e, self\<lparr>board := g3\<rparr>)
                          | Inr g4 \<Rightarrow>
                              (None,
                               self\<lparr>board := g4,
                                    en_passant_target :=
                                      (if type piece = PAWN \<and> \<bar>start_row - end_row\<bar> = 2
                                       then Some (end_row + (start_row - end_row) div 2, end_col)
                                       else None),
                                    current_player :=
                                      (if current_player self = WHITE then BLACK else WHITE),
                                    move_history := move_history self @ [(start, end)]\<rparr>))))))"

subsection \<open>Pseudo-legal move generation\<close>

definition get_pawn_moves :: "Board \<Rightarrow> int \<Rightarrow> int \<Rightarrow> square list" where
  "get_pawn_moves self row col =
     (case get_piece self row col of
        None \<Rightarrow> []
      | Some piece \<Rightarrow>
          (let direction = (if color piece = WHITE then - 1 else 1);
               start_row = (if color piece = WHITE then 6 else 1)
           in (if get_piece self (row + direction) col = None
               then (row + direction, col) #
                    (if row = start_row \<and> get_piece self (row + 2 * direction) col = None
                     then [(row + 2 * direction, col)] else [])
               else []) @
              concat (map (\<lambda>dcol.
                 if is_valid_position (row + direction) (col + dcol)
                 then (let target = get_piece self (row + direction) (col + dcol)
                       in if is_enemy (Some piece) target
                             \<or> Some (row + direction, col + dcol) = en_passant_target self
                          then [(row + direction, col + dcol)] else [])
                 else []) [- 1, 1])))"

text \<open>
  The inner loop \<open>for i in range(1, 8)\<close> of \<open>get_rook_moves\<close> and \<open>get_bishop_moves\<close>, the
  same text in both: it walks one direction and stops at the edge or at the first piece.
\<close>

fun slide :: "Board \<Rightarrow> Piece \<Rightarrow> int \<Rightarrow> int \<Rightarrow> int \<Rightarrow> int \<Rightarrow> int list \<Rightarrow> square list" where
  "slide self piece row col dr dc [] = []"
| "slide self piece row col dr dc (i # rest) =
     (let new_row = row + i * dr; new_col = col + i * dc in
      if \<not> is_valid_position new_row new_col then []
      else (case get_piece self new_row new_col of
              None \<Rightarrow> (new_row, new_col) # slide self piece row col dr dc rest
            | Some target \<Rightarrow>
                if is_enemy (Some piece) (Some target) then [(new_row, new_col)] else []))"

definition rook_directions :: "(int \<times> int) list" where
  "rook_directions = [(- 1, 0), (1, 0), (0, - 1), (0, 1)]"

definition bishop_directions :: "(int \<times> int) list" where
  "bishop_directions = [(- 1, - 1), (- 1, 1), (1, - 1), (1, 1)]"

definition get_rook_moves :: "Board \<Rightarrow> int \<Rightarrow> int \<Rightarrow> square list" where
  "get_rook_moves self row col =
     (case get_piece self row col of
        None \<Rightarrow> []
      | Some piece \<Rightarrow>
          concat (map (\<lambda>(dr, dc). slide self piece row col dr dc [1..7]) rook_directions))"

definition get_bishop_moves :: "Board \<Rightarrow> int \<Rightarrow> int \<Rightarrow> square list" where
  "get_bishop_moves self row col =
     (case get_piece self row col of
        None \<Rightarrow> []
      | Some piece \<Rightarrow>
          concat (map (\<lambda>(dr, dc). slide self piece row col dr dc [1..7]) bishop_directions))"

definition get_queen_moves :: "Board \<Rightarrow> int \<Rightarrow> int \<Rightarrow> square list" where
  "get_queen_moves self row col = get_rook_moves self row col @ get_bishop_moves self row col"

definition knight_moves :: "(int \<times> int) list" where
  "knight_moves = [(- 2, - 1), (- 2, 1), (- 1, - 2), (- 1, 2), (1, - 2), (1, 2), (2, - 1), (2, 1)]"

definition king_moves :: "(int \<times> int) list" where
  "king_moves = [(- 1, - 1), (- 1, 0), (- 1, 1), (0, - 1), (0, 1), (1, - 1), (1, 0), (1, 1)]"

text \<open>The loop shared by \<open>get_knight_moves\<close> and \<open>get_king_moves\<close> over a list of offsets.\<close>

definition step_moves :: "Board \<Rightarrow> Piece \<Rightarrow> int \<Rightarrow> int \<Rightarrow> (int \<times> int) list \<Rightarrow> square list" where
  "step_moves self piece row col offsets =
     concat (map (\<lambda>(dr, dc).
        (let new_row = row + dr; new_col = col + dc in
         if is_valid_position new_row new_col
         then (let target = get_piece self new_row new_col
               in if target = None \<or> is_enemy (Some piece) target
                  then [(new_row, new_col)] else [])
         else [])) offsets)"

definition get_knight_moves :: "Board \<Rightarrow> int \<Rightarrow> int \<Rightarrow> square list" where
  "get_knight_moves self row col =
     (case get_piece self row col of
        None \<Rightarrow> []
      | Some piece \<Rightarrow> step_moves self piece row col knight_moves)"

definition get_king_moves :: "Board \<Rightarrow> int \<Rightarrow> int \<Rightarrow> square list" where
  "get_king_moves self row col =
     (case get_piece self row col of
        None \<Rightarrow> []
      | Some piece \<Rightarrow> step_moves self piece row col king_moves)"

text \<open>\<open>Piece.get_legal_moves\<close>: the dispatch on the piece's type.\<close>

definition Piece_get_legal_moves :: "Piece \<Rightarrow> Board \<Rightarrow> int \<Rightarrow> int \<Rightarrow> square list" where
  "Piece_get_legal_moves piece brd row col =
     (case type piece of
        PAWN \<Rightarrow> get_pawn_moves brd row col
      | ROOK \<Rightarrow> get_rook_moves brd row col
      | KNIGHT \<Rightarrow> get_knight_moves brd row col
      | BISHOP \<Rightarrow> get_bishop_moves brd row col
      | QUEEN \<Rightarrow> get_queen_moves brd row col
      | KING \<Rightarrow> get_king_moves brd row col)"

subsection \<open>Attack and check detection\<close>

text \<open>The squares in the order of \<open>for row in range(ROWS): for col in range(COLS)\<close>.\<close>

definition all_squares :: "square list" where
  "all_squares = concat (map (\<lambda>r. map (\<lambda>c. (r, c)) [0..COLS - 1]) [0..ROWS - 1])"

definition is_square_attacked :: "Board \<Rightarrow> int \<Rightarrow> int \<Rightarrow> Color \<Rightarrow> bool" where
  "is_square_attacked self row col attacking_color =
     list_ex (\<lambda>(r, c).
        (case get_piece self r c of
           None \<Rightarrow> False
         | Some piece \<Rightarrow>
             color piece = attacking_color
             \<and> (row, col) \<in> set (Piece_get_legal_moves piece self r c))) all_squares"

definition find_king :: "Board \<Rightarrow> Color \<Rightarrow> square option" where
  "find_king self clr =
     find (\<lambda>(row, col).
        (case get_piece self row col of
           None \<Rightarrow> False
         | Some piece \<Rightarrow> color piece = clr \<and> type piece = KING)) all_squares"

definition is_in_check :: "Board \<Rightarrow> Color \<Rightarrow> bool" where
  "is_in_check self clr =
     (case find_king self clr of
        None \<Rightarrow> False
      | Some king_pos \<Rightarrow>
          is_square_attacked self (fst king_pos) (snd king_pos)
            (if clr = WHITE then BLACK else WHITE))"

subsection \<open>Legal moves and terminal states\<close>

text \<open>
  The loop of \<open>Board.get_legal_moves\<close>. Each round builds \<open>temp_board = Board()\<close>, which is
  \<open>reset\<close>, and replaces only its \<open>board\<close> by a copy of the rows of \<open>self\<close>; an exception of
  \<open>make_move\<close> leaves the loop and the method.
\<close>

fun legal_loop :: "Board \<Rightarrow> Piece \<Rightarrow> square \<Rightarrow> square list \<Rightarrow> error + square list" where
  "legal_loop self piece start [] = Inr []"
| "legal_loop self piece start (move # rest) =
     (let temp_board = reset\<lparr>board := map (\<lambda>row. row) (board self)\<rparr> in
      case make_move temp_board start move of
        (Some e, _) \<Rightarrow> Inl e
      | (None, temp_board) \<Rightarrow>
          (case legal_loop self piece start rest of
             Inl e \<Rightarrow> Inl e
           | Inr legal_moves \<Rightarrow>
               Inr (if \<not> is_in_check temp_board (color piece)
                    then move # legal_moves else legal_moves)))"

definition get_legal_moves :: "Board \<Rightarrow> int \<Rightarrow> int \<Rightarrow> error + square list" where
  "get_legal_moves self row col =
     (case get_piece self row col of
        None \<Rightarrow> Inr []
      | Some piece \<Rightarrow>
          legal_loop self piece (row, col) (Piece_get_legal_moves piece self row col))"

text \<open>
  The scan that \<open>is_checkmate\<close> and \<open>is_stalemate\<close> share: False at the first piece of the
  colour with a legal move, True when the squares are exhausted.
\<close>

fun no_moves_scan :: "Board \<Rightarrow> Color \<Rightarrow> square list \<Rightarrow> error + bool" where
  "no_moves_scan self clr [] = Inr True"
| "no_moves_scan self clr ((row, col) # rest) =
     (case get_piece self row col of
        None \<Rightarrow> no_moves_scan self clr rest
      | Some piece \<Rightarrow>
          if color piece = clr
          then (case get_legal_moves self row col of
                  Inl e \<Rightarrow> Inl e
                | Inr legal_moves \<Rightarrow>
                    if legal_moves \<noteq> [] then Inr False else no_moves_scan self clr rest)
          else no_moves_scan self clr rest)"

definition is_checkmate :: "Board \<Rightarrow> Color \<Rightarrow> error + bool" where
  "is_checkmate self clr =
     (if \<not> is_in_check self clr then Inr False else no_moves_scan self clr all_squares)"

definition is_stalemate :: "Board \<Rightarrow> Color \<Rightarrow> error + bool" where
  "is_stalemate self clr =
     (if is_in_check self clr then Inr False else no_moves_scan self clr all_squares)"

subsection \<open>The rows as objects: get_legal_moves on a store\<close>

text \<open>
  The rows of a board are Python lists, shared by every reference to them. To say what a call
  changes, the rows live in a store, a list of row objects whose index is the address, and a
  Board object holds the addresses of its eight rows: its \<open>board\<close> field is the outer list,
  which no method updates in place, so it is a value. A list comprehension allocates fresh
  rows at the end of the store. \<open>Board()\<close> allocates eight rows and fills them;
  \<open>[row[:] for row in self.board]\<close> allocates a copy of each row of \<open>self\<close>. The methods
  that only read are the ones above, applied to the board read off the store by \<open>deref\<close>.
  The other fields stay values: a method assigns them on the object it is called on, and the
  history of a new Board is a new empty list. A Piece is never assigned to once it is built, so
  pieces are values as well.
\<close>

type_synonym addr = nat

type_synonym store = "Piece option list list"

record Board_ref =
  board_ref :: "addr list"
  en_passant_target_ref :: "square option"
  current_player_ref :: Color
  move_history_ref :: "(square \<times> square) list"

text \<open>The board a Board object denotes in a store.\<close>

definition deref :: "store \<Rightarrow> Board_ref \<Rightarrow> Board" where
  "deref st self =
     \<lparr>board = map (\<lambda>a. st ! a) (board_ref self),
      en_passant_target = en_passant_target_ref self,
      current_player = current_player_ref self,
      move_history = move_history_ref self\<rparr>"

definition alloc_rows :: "store \<Rightarrow> Piece option list list \<Rightarrow> store \<times> addr list" where
  "alloc_rows st rows = (st @ rows, [length st..<length st + length rows])"

definition getitem2_ref :: "store \<Rightarrow> addr list \<Rightarrow> int \<Rightarrow> int \<Rightarrow> error + Piece option" where
  "getitem2_ref st rs r c =
     (case py_index r (length rs) of
        None \<Rightarrow> Inl IndexError
      | Some i \<Rightarrow>
          (case py_index c (length (st ! (rs ! i))) of
             None \<Rightarrow> Inl IndexError
           | Some j \<Rightarrow> Inr (st ! (rs ! i) ! j)))"

definition setitem2_ref :: "store \<Rightarrow> addr list \<Rightarrow> int \<Rightarrow> int \<Rightarrow> Piece option \<Rightarrow> error + store" where
  "setitem2_ref st rs r c v =
     (case py_index r (length rs) of
        None \<Rightarrow> Inl IndexError
      | Some i \<Rightarrow>
          (case py_index c (length (st ! (rs ! i))) of
             None \<Rightarrow> Inl IndexError
           | Some j \<Rightarrow> Inr (st[rs ! i := (st ! (rs ! i))[j := v]])))"

definition initial_column_ref :: "addr list \<Rightarrow> store \<Rightarrow> nat \<Rightarrow> store" where
  "initial_column_ref rs st col =
     (let st = st[rs ! 0 := (st ! (rs ! 0))[col := Some \<lparr>color = BLACK, type = piece_order ! col\<rparr>]];
          st = st[rs ! 1 := (st ! (rs ! 1))[col := Some \<lparr>color = BLACK, type = PAWN\<rparr>]];
          st = st[rs ! 6 := (st ! (rs ! 6))[col := Some \<lparr>color = WHITE, type = PAWN\<rparr>]];
          st = st[rs ! 7 := (st ! (rs ! 7))[col := Some \<lparr>color = WHITE, type = piece_order ! col\<rparr>]]
      in st)"

definition set_initial_position_ref :: "store \<Rightarrow> addr list \<Rightarrow> store" where
  "set_initial_position_ref st rs = foldl (initial_column_ref rs) st [0..<8]"

definition reset_ref :: "store \<Rightarrow> store \<times> Board_ref" where
  "reset_ref st =
     (let (st, rs) = alloc_rows st (replicate 8 (replicate 8 None))
      in (set_initial_position_ref st rs,
          \<lparr>board_ref = rs,
           en_passant_target_ref = None,
           current_player_ref = WHITE,
           move_history_ref = []\<rparr>))"

definition make_move_ref ::
  "store \<Rightarrow> Board_ref \<Rightarrow> square \<Rightarrow> square \<Rightarrow> error option \<times> store \<times> Board_ref" where
  "make_move_ref st self start end =
     (let (start_row, start_col) = start; (end_row, end_col) = end; rs = board_ref self in
      case getitem2_ref st rs start_row start_col of
        Inl e \<Rightarrow> (Some e, st, self)
      | Inr None \<Rightarrow> (Some AttributeError, st, self)
      | Inr (Some piece) \<Rightarrow>
          (case (if type piece = PAWN \<and> Some (end_row, end_col) = en_passant_target_ref self
                 then setitem2_ref st rs start_row end_col None
                 else Inr st) of
             Inl e \<Rightarrow> (Some e, st, self)
           | Inr st1 \<Rightarrow>
               (case setitem2_ref st1 rs end_row end_col (Some piece) of
                  Inl e \<Rightarrow> (Some e, st1, self)
                | Inr st2 \<Rightarrow>
                    (case setitem2_ref st2 rs start_row start_col None of
                       Inl e \<Rightarrow> (Some e, st2, self)
                     | Inr st3 \<Rightarrow>
                         (case (if type piece = PAWN \<and> (end_row = 0 \<or> end_row = 7)
                                then setitem2_ref st3 rs end_row end_col
                                       (Some \<lparr>color = color piece, type = QUEEN\<rparr>)
                                else Inr st3) of
                            Inl e \<Rightarrow> (Some e, st3, self)
                          | Inr st4 \<Rightarrow>
                              (None, st4,
                               self\<lparr>en_passant_target_ref :=
                                      (if type piece = PAWN \<and> \<bar>start_row - end_row\<bar> = 2
                                       then Some (end_row + (start_row - end_row) div 2, end_col)
                                       else None),
                                    current_player_ref :=
                                      (if current_player_ref self = WHITE then BLACK else WHITE),
                                    move_history_ref :=
                                      move_history_ref self @ [(start, end)]\<rparr>))))))"

fun legal_loop_ref ::
  "store \<Rightarrow> Board_ref \<Rightarrow> Piece \<Rightarrow> square \<Rightarrow> square list \<Rightarrow> store \<times> (error + square list)" where
  "legal_loop_ref st self piece start [] = (st, Inr [])"
| "legal_loop_ref st self piece start (move # rest) =
     (let (st1, temp_board) = reset_ref st;
          (st2, copies) = alloc_rows st1 (map (\<lambda>row. st1 ! row) (board_ref self));
          temp_board = temp_board\<lparr>board_ref := copies\<rparr>
      in case make_move_ref st2 temp_board start move of
           (Some e, st3, _) \<Rightarrow> (st3, Inl e)
         | (None, st3, temp_board) \<Rightarrow>
             (let in_check = is_in_check (deref st3 temp_board) (color piece) in
              case legal_loop_ref st3 self piece start rest of
                (st4, Inl e) \<Rightarrow> (st4, Inl e)
              | (st4, Inr legal_moves) \<Rightarrow>
                  (st4, Inr (if \<not> in_check then move # legal_moves else legal_moves))))"

definition get_legal_moves_ref ::
  "store \<Rightarrow> Board_ref \<Rightarrow> int \<Rightarrow> int \<Rightarrow> store \<times> (error + square list)" where
  "get_legal_moves_ref st self row col =
     (case get_piece (deref st self) row col of
        None \<Rightarrow> (st, Inr [])
      | Some piece \<Rightarrow>
          legal_loop_ref st self piece (row, col)
            (Piece_get_legal_moves piece (deref st self) row col))"

text \<open>
  \<open>rows_kept st st'\<close>: every row object of \<open>st\<close> is in \<open>st'\<close> with the same contents.
\<close>

definition rows_kept :: "store \<Rightarrow> store \<Rightarrow> bool" where
  "rows_kept st st' \<longleftrightarrow> length st \<le> length st' \<and> (\<forall>a < length st. st' ! a = st ! a)"

subsection \<open>The writes of make_move, one by one\<close>

text \<open>The grid after each write of make_move, on a well-formed board and squares in range.\<close>

definition ep_cleared :: "Board \<Rightarrow> Piece \<Rightarrow> square \<Rightarrow> square \<Rightarrow> grid" where
  "ep_cleared self piece start end =
     (if type piece = PAWN \<and> Some end = en_passant_target self
      then (board self)[nat (fst start) := (board self ! nat (fst start))[nat (snd end) := None]]
      else board self)"

definition relocated :: "Board \<Rightarrow> Piece \<Rightarrow> square \<Rightarrow> square \<Rightarrow> grid" where
  "relocated self piece start end =
     (let g1 = ep_cleared self piece start end;
          g2 = g1[nat (fst end) := (g1 ! nat (fst end))[nat (snd end) := Some piece]]
      in g2[nat (fst start) := (g2 ! nat (fst start))[nat (snd start) := None]])"

definition promoted :: "Board \<Rightarrow> Piece \<Rightarrow> square \<Rightarrow> square \<Rightarrow> grid" where
  "promoted self piece start end =
     (let g3 = relocated self piece start end in
      if type piece = PAWN \<and> (fst end = 0 \<or> fst end = 7)
      then g3[nat (fst end) := (g3 ! nat (fst end))[nat (snd end) := Some \<lparr>color = color piece, type = QUEEN\<rparr>]]
      else g3)"

subsection \<open>Squares along a direction\<close>

text \<open>
  Square \<open>k\<close> of the direction \<open>(dr, dc)\<close> is reached from square \<open>a\<close> when every square
  from \<open>a\<close> up to it is on the board and empty, and it is on the board and empty or held by
  an enemy of \<open>piece\<close>.
\<close>

definition ray_ok :: "Board \<Rightarrow> Piece \<Rightarrow> int \<Rightarrow> int \<Rightarrow> int \<Rightarrow> int \<Rightarrow> int \<Rightarrow> int \<Rightarrow> bool" where
  "ray_ok self piece row col dr dc a k \<longleftrightarrow>
     (\<forall>j. a \<le> j \<and> j < k \<longrightarrow>
        is_valid_position (row + j * dr) (col + j * dc)
        \<and> get_piece self (row + j * dr) (col + j * dc) = None)
     \<and> is_valid_position (row + k * dr) (col + k * dc)
     \<and> (get_piece self (row + k * dr) (col + k * dc) = None
        \<or> is_enemy (Some piece) (get_piece self (row + k * dr) (col + k * dc)))"

subsection \<open>Positions used as test inputs\<close>

definition empty_row :: "Piece option list" where
  "empty_row = [None, None, None, None, None, None, None, None]"

definition en_passant_pin_position :: Board where
  "en_passant_pin_position =
     \<lparr>board =
        [[None, None, None, None, None, None, None, Some \<lparr>color = BLACK, type = KING\<rparr>],
         empty_row,
         empty_row,
         [Some \<lparr>color = WHITE, type = KING\<rparr>, None, None, None,
          Some \<lparr>color = WHITE, type = PAWN\<rparr>, Some \<lparr>color = BLACK, type = PAWN\<rparr>, None,
          Some \<lparr>color = BLACK, type = ROOK\<rparr>],
         empty_row, empty_row, empty_row, empty_row],
      en_passant_target = Some (2, 5),
      current_player = WHITE,
      move_history = [((1, 5), (3, 5))]\<rparr>"

definition queen_and_pawn_position :: Board where
  "queen_and_pawn_position =
     \<lparr>board =
        [[None, None, None, None, None, None, None, Some \<lparr>color = BLACK, type = KING\<rparr>],
         [None, None, Some \<lparr>color = WHITE, type = PAWN\<rparr>, None, None, None, None, None],
         empty_row,
         empty_row,
         [None, None, None, None, Some \<lparr>color = WHITE, type = QUEEN\<rparr>, None, None, None],
         empty_row, empty_row,
         [None, None, None, None, Some \<lparr>color = WHITE, type = KING\<rparr>, None, None, None]],
      en_passant_target = None,
      current_player = WHITE,
      move_history = []\<rparr>"

definition sliding_position :: Board where
  "sliding_position =
     \<lparr>board =
        [[None, None, None, None, None, None, None, Some \<lparr>color = BLACK, type = KING\<rparr>],
         empty_row,
         [None, None, None, None, Some \<lparr>color = WHITE, type = PAWN\<rparr>, None, None, None],
         empty_row,
         [None, None, None, None, Some \<lparr>color = WHITE, type = ROOK\<rparr>, None,
          Some \<lparr>color = BLACK, type = PAWN\<rparr>, None],
         empty_row, empty_row,
         [Some \<lparr>color = WHITE, type = KING\<rparr>, None, None, None, None, None, None, None]],
      en_passant_target = None,
      current_player = WHITE,
      move_history = []\<rparr>"

definition checkmate_position :: Board where
  "checkmate_position =
     \<lparr>board =
        [[Some \<lparr>color = BLACK, type = KING\<rparr>, None, None, None, None, None, None, None],
         [None, Some \<lparr>color = WHITE, type = QUEEN\<rparr>, None, None, None, None, None, None],
         [None, None, Some \<lparr>color = WHITE, type = KING\<rparr>, None, None, None, None, None],
         empty_row, empty_row, empty_row, empty_row, empty_row],
      en_passant_target = None,
      current_player = BLACK,
      move_history = []\<rparr>"

definition stalemate_position :: Board where
  "stalemate_position =
     \<lparr>board =
        [[Some \<lparr>color = BLACK, type = KING\<rparr>, None, None, None, None, None, None, None],
         [None, None, Some \<lparr>color = WHITE, type = QUEEN\<rparr>, None, None, None, None, None],
         [None, Some \<lparr>color = WHITE, type = KING\<rparr>, None, None, None, None, None, None],
         empty_row, empty_row, empty_row, empty_row, empty_row],
      en_passant_target = None,
      current_player = BLACK,
      move_history = []\<rparr>"

definition far_rank_pawns_position :: Board where
  "far_rank_pawns_position =
     \<lparr>board =
        [[None, None, Some \<lparr>color = WHITE, type = PAWN\<rparr>, None, None, None, None, None],
         empty_row, empty_row, empty_row, empty_row, empty_row, empty_row,
         [None, None, None, None, None, Some \<lparr>color = BLACK, type = PAWN\<rparr>, None, None]],
      en_passant_target = None,
      current_player = WHITE,
      move_history = []\<rparr>"

definition pin_store :: store where
  "pin_store = board en_passant_pin_position"

definition pin_board_ref :: Board_ref where
  "pin_board_ref =
     \<lparr>board_ref = [0, 1, 2, 3, 4, 5, 6, 7],
      en_passant_target_ref = Some (2, 5),
      current_player_ref = WHITE,
      move_history_ref = [((1, 5), (3, 5))]\<rparr>"

section \<open>Properties\<close>

subsection \<open>Indexing a well-formed grid\<close>

lemma valid_iff: "is_valid_position r c \<longleftrightarrow> 0 \<le> r \<and> r < 8 \<and> 0 \<le> c \<and> c < 8"
  by (simp add: is_valid_position_def ROWS_def COLS_def)

lemma py_index_valid: "0 \<le> i \<Longrightarrow> i < int n \<Longrightarrow> py_index i n = Some (nat i)"
  by (simp add: py_index_def)

lemma wf_grid_row: "wf_grid g \<Longrightarrow> i < 8 \<Longrightarrow> length (g ! i) = 8"
  by (simp add: wf_grid_def)

lemma getitem2_valid:
  assumes "wf_grid g" "is_valid_position r c"
  shows "getitem2 g r c = Inr (g ! nat r ! nat c)"
proof -
  from assms have r: "0 \<le> r" "r < 8" and c: "0 \<le> c" "c < 8" by (simp_all add: valid_iff)
  from assms(1) have len: "length g = 8" by (simp add: wf_grid_def)
  have "nat r < 8" using r by simp
  then have row: "length (g ! nat r) = 8" using assms(1) by (rule wf_grid_row[rotated])
  show ?thesis using r c len row by (simp add: getitem2_def py_index_valid)
qed

lemma setitem2_valid:
  assumes "wf_grid g" "is_valid_position r c"
  shows "setitem2 g r c v = Inr (g[nat r := (g ! nat r)[nat c := v]])"
proof -
  from assms have r: "0 \<le> r" "r < 8" and c: "0 \<le> c" "c < 8" by (simp_all add: valid_iff)
  from assms(1) have len: "length g = 8" by (simp add: wf_grid_def)
  have "nat r < 8" using r by simp
  then have row: "length (g ! nat r) = 8" using assms(1) by (rule wf_grid_row[rotated])
  show ?thesis using r c len row by (simp add: setitem2_def py_index_valid)
qed

lemma wf_grid_update:
  assumes "wf_grid g"
  shows "wf_grid (g[i := (g ! i)[j := v]])"
proof (cases "i < length g")
  case True
  have len: "length ((g ! i)[j := v]) = 8"
    using True assms by (simp add: wf_grid_def)
  have sub: "set (g[i := (g ! i)[j := v]]) \<subseteq> insert ((g ! i)[j := v]) (set g)"
    by (rule set_update_subset_insert)
  have "length row = 8" if "row \<in> set (g[i := (g ! i)[j := v]])" for row
  proof -
    from that sub have "row = (g ! i)[j := v] \<or> row \<in> set g" by blast
    then show ?thesis
    proof
      assume "row = (g ! i)[j := v]"
      then show ?thesis using len by simp
    next
      assume "row \<in> set g"
      then show ?thesis using assms unfolding wf_grid_def by blast
    qed
  qed
  moreover have "length (g[i := (g ! i)[j := v]]) = 8"
    using assms by (simp add: wf_grid_def)
  ultimately show ?thesis unfolding wf_grid_def by blast
next
  case False
  then have "g[i := (g ! i)[j := v]] = g" by (simp add: list_update_beyond)
  then show ?thesis using assms by simp
qed

lemma cell_update:
  assumes "wf_grid g" "is_valid_position r c" "is_valid_position r' c'"
  shows "g[nat r := (g ! nat r)[nat c := v]] ! nat r' ! nat c'
         = (if r' = r \<and> c' = c then v else g ! nat r' ! nat c')"
proof -
  from assms have r: "0 \<le> r" "r < 8" "0 \<le> c" "c < 8" "0 \<le> r'" "r' < 8" "0 \<le> c'" "c' < 8"
    by (simp_all add: valid_iff)
  from assms(1) have len: "length g = 8" by (simp add: wf_grid_def)
  have "nat r < 8" using r by simp
  then have row: "length (g ! nat r) = 8" using assms(1) by (rule wf_grid_row[rotated])
  show ?thesis
  proof (cases "r' = r")
    case True
    then show ?thesis using r len row by (auto simp: nth_list_update)
  next
    case False
    then have "nat r' \<noteq> nat r" using r by simp
    then show ?thesis using False by simp
  qed
qed

subsection \<open>What make_move writes\<close>

lemma get_piece_valid: "is_valid_position r c \<Longrightarrow> get_piece self r c = board self ! nat r ! nat c"
  by (simp add: get_piece_def)

lemma get_piece_Some_valid: "get_piece self r c = Some p \<Longrightarrow> is_valid_position r c"
  by (simp add: get_piece_def split: if_splits)

lemma wf_ep_cleared: "wf_grid (board self) \<Longrightarrow> wf_grid (ep_cleared self piece start end)"
  by (simp add: ep_cleared_def wf_grid_update)

lemma wf_relocated: "wf_grid (board self) \<Longrightarrow> wf_grid (relocated self piece start end)"
  by (simp add: relocated_def Let_def wf_grid_update wf_ep_cleared)

lemma wf_promoted: "wf_grid (board self) \<Longrightarrow> wf_grid (promoted self piece start end)"
  by (simp add: promoted_def Let_def wf_grid_update wf_relocated)

lemma make_move_ok:
  assumes wf: "wf_grid (board self)"
    and vs: "is_valid_position sr sc" and ve: "is_valid_position er ec"
    and pc: "get_piece self sr sc = Some piece"
  shows "make_move self (sr, sc) (er, ec) =
           (None,
            self\<lparr>board := promoted self piece (sr, sc) (er, ec),
                 en_passant_target :=
                   (if type piece = PAWN \<and> \<bar>sr - er\<bar> = 2
                    then Some (er + (sr - er) div 2, ec) else None),
                 current_player := (if current_player self = WHITE then BLACK else WHITE),
                 move_history := move_history self @ [((sr, sc), (er, ec))]\<rparr>)"
proof -
  have vse: "is_valid_position sr ec" using vs ve by (simp add: valid_iff)
  have rd: "getitem2 (board self) sr sc = Inr (Some piece)"
    using getitem2_valid[OF wf vs] pc vs by (simp add: get_piece_def)
  let ?g1 = "ep_cleared self piece (sr, sc) (er, ec)"
  have s1: "(if type piece = PAWN \<and> Some (er, ec) = en_passant_target self
             then setitem2 (board self) sr ec None else Inr (board self)) = Inr ?g1"
    by (simp add: ep_cleared_def setitem2_valid[OF wf vse])
  have wf1: "wf_grid ?g1" using wf by (rule wf_ep_cleared)
  let ?g2 = "?g1[nat er := (?g1 ! nat er)[nat ec := Some piece]]"
  have s2: "setitem2 ?g1 er ec (Some piece) = Inr ?g2" by (rule setitem2_valid[OF wf1 ve])
  have wf2: "wf_grid ?g2" using wf1 by (rule wf_grid_update)
  let ?g3 = "relocated self piece (sr, sc) (er, ec)"
  have s3: "setitem2 ?g2 sr sc None = Inr ?g3"
    using setitem2_valid[OF wf2 vs] by (simp add: relocated_def Let_def)
  have wf3: "wf_grid ?g3" using wf by (rule wf_relocated)
  let ?g4 = "promoted self piece (sr, sc) (er, ec)"
  have s4: "(if type piece = PAWN \<and> (er = 0 \<or> er = 7)
             then setitem2 ?g3 er ec (Some \<lparr>color = color piece, type = QUEEN\<rparr>)
             else Inr ?g3) = Inr ?g4"
    by (auto simp: promoted_def Let_def setitem2_valid[OF wf3 ve])
  show ?thesis
    unfolding make_move_def by (simp only: Let_def prod.case rd sum.case option.case s1 s2 s3 s4)
qed

lemma cell_ep_cleared:
  assumes wf: "wf_grid (board self)"
    and vs: "is_valid_position sr sc" and ve: "is_valid_position er ec"
    and v: "is_valid_position r c"
  shows "ep_cleared self piece (sr, sc) (er, ec) ! nat r ! nat c =
           (if type piece = PAWN \<and> Some (er, ec) = en_passant_target self \<and> r = sr \<and> c = ec
            then None else board self ! nat r ! nat c)"
proof -
  have vse: "is_valid_position sr ec" using vs ve by (simp add: valid_iff)
  show ?thesis
  proof (cases "type piece = PAWN \<and> Some (er, ec) = en_passant_target self")
    case True
    then have e: "ep_cleared self piece (sr, sc) (er, ec) =
                 (board self)[nat sr := (board self ! nat sr)[nat ec := None]]"
      by (simp add: ep_cleared_def)
    show ?thesis unfolding e cell_update[OF wf vse v] using True by simp
  next
    case False
    then show ?thesis by (auto simp: ep_cleared_def)
  qed
qed

lemma cell_relocated:
  assumes wf: "wf_grid (board self)"
    and vs: "is_valid_position sr sc" and ve: "is_valid_position er ec"
    and v: "is_valid_position r c"
  shows "relocated self piece (sr, sc) (er, ec) ! nat r ! nat c =
           (if r = sr \<and> c = sc then None
            else if r = er \<and> c = ec then Some piece
            else ep_cleared self piece (sr, sc) (er, ec) ! nat r ! nat c)"
proof -
  let ?g1 = "ep_cleared self piece (sr, sc) (er, ec)"
  have wf1: "wf_grid ?g1" using wf by (rule wf_ep_cleared)
  let ?g2 = "?g1[nat er := (?g1 ! nat er)[nat ec := Some piece]]"
  have wf2: "wf_grid ?g2" using wf1 by (rule wf_grid_update)
  have e: "relocated self piece (sr, sc) (er, ec) = ?g2[nat sr := (?g2 ! nat sr)[nat sc := None]]"
    by (simp add: relocated_def Let_def)
  show ?thesis
    unfolding e cell_update[OF wf2 vs v] cell_update[OF wf1 ve v] by simp
qed

lemma cell_promoted:
  assumes wf: "wf_grid (board self)"
    and vs: "is_valid_position sr sc" and ve: "is_valid_position er ec"
    and v: "is_valid_position r c"
  shows "promoted self piece (sr, sc) (er, ec) ! nat r ! nat c =
           (if type piece = PAWN \<and> (er = 0 \<or> er = 7) \<and> r = er \<and> c = ec
            then Some \<lparr>color = color piece, type = QUEEN\<rparr>
            else relocated self piece (sr, sc) (er, ec) ! nat r ! nat c)"
proof -
  have wf3: "wf_grid (relocated self piece (sr, sc) (er, ec))" using wf by (rule wf_relocated)
  show ?thesis
  proof (cases "type piece = PAWN \<and> (er = 0 \<or> er = 7)")
    case True
    let ?g3 = "relocated self piece (sr, sc) (er, ec)"
    from True have e: "promoted self piece (sr, sc) (er, ec) =
        ?g3[nat er := (?g3 ! nat er)[nat ec := Some \<lparr>color = color piece, type = QUEEN\<rparr>]]"
      by (simp add: promoted_def Let_def)
    show ?thesis unfolding e cell_update[OF wf3 ve v] using True by simp
  next
    case False
    then show ?thesis by (auto simp: promoted_def Let_def)
  qed
qed

lemma get_piece_after_move:
  assumes wf: "wf_grid (board self)"
    and vs: "is_valid_position sr sc" and ve: "is_valid_position er ec"
    and pc: "get_piece self sr sc = Some piece"
    and v: "is_valid_position r c"
  shows "get_piece (snd (make_move self (sr, sc) (er, ec))) r c =
           (if type piece = PAWN \<and> (er = 0 \<or> er = 7) \<and> r = er \<and> c = ec
            then Some \<lparr>color = color piece, type = QUEEN\<rparr>
            else if r = sr \<and> c = sc then None
            else if r = er \<and> c = ec then Some piece
            else if type piece = PAWN \<and> Some (er, ec) = en_passant_target self \<and> r = sr \<and> c = ec
            then None
            else get_piece self r c)"
proof -
  have "board (snd (make_move self (sr, sc) (er, ec))) = promoted self piece (sr, sc) (er, ec)"
    by (simp add: make_move_ok[OF wf vs ve pc])
  then have "get_piece (snd (make_move self (sr, sc) (er, ec))) r c =
               promoted self piece (sr, sc) (er, ec) ! nat r ! nat c"
    using v by (simp add: get_piece_def)
  also have "\<dots> = (if type piece = PAWN \<and> (er = 0 \<or> er = 7) \<and> r = er \<and> c = ec
            then Some \<lparr>color = color piece, type = QUEEN\<rparr>
            else if r = sr \<and> c = sc then None
            else if r = er \<and> c = ec then Some piece
            else if type piece = PAWN \<and> Some (er, ec) = en_passant_target self \<and> r = sr \<and> c = ec
            then None
            else board self ! nat r ! nat c)"
    unfolding cell_promoted[OF wf vs ve v] cell_relocated[OF wf vs ve v]
      cell_ep_cleared[OF wf vs ve v] by simp
  finally show ?thesis unfolding get_piece_valid[OF v, of self] .
qed

subsection \<open>Claims about make_move\<close>

lemma Piece_queen_eq: "(piece = \<lparr>color = color piece, type = QUEEN\<rparr>) \<longleftrightarrow> type piece = QUEEN"
  by (cases piece) auto

text \<open>
  The destinations of \<open>get_pawn_moves\<close>: one row forward in the same or a neighbouring
  column, or two rows forward in the same column from the start row.
\<close>

lemma pawn_move_shape:
  assumes pc: "get_piece self sr sc = Some piece"
    and mem: "(er, ec) \<in> set (get_pawn_moves self sr sc)"
  shows "(er = sr + (if color piece = WHITE then - 1 else 1) \<and> \<bar>ec - sc\<bar> \<le> 1)
       \<or> (sr = (if color piece = WHITE then 6 else 1)
           \<and> er = sr + 2 * (if color piece = WHITE then - 1 else 1) \<and> ec = sc)"
  using mem pc by (auto simp: get_pawn_moves_def Let_def split: if_splits)

lemma pawn_move_changes_row:
  assumes "get_piece self sr sc = Some piece" and "(er, ec) \<in> set (get_pawn_moves self sr sc)"
  shows "er \<noteq> sr"
  using pawn_move_shape[OF assms] by (auto split: if_splits)

text \<open>
  Claim C2. When the mover is a pawn and the destination is the current en-passant target,
  \<open>make_move\<close> empties the square in the origin's row and the destination's column, where the
  passed pawn stands, and not the target square: the target square, in another row as every
  destination of \<open>get_pawn_moves\<close> is, receives the mover (a queen when it arrives on row 0 or
  7). No other square than the origin changes.
\<close>

theorem make_move_en_passant_capture:
  assumes wf: "wf_grid (board self)"
    and vs: "is_valid_position sr sc" and ve: "is_valid_position er ec"
    and pc: "get_piece self sr sc = Some piece"
    and pawn: "type piece = PAWN"
    and ep: "en_passant_target self = Some (er, ec)"
    and row: "er \<noteq> sr"
  shows "fst (make_move self (sr, sc) (er, ec)) = None
       \<and> get_piece (snd (make_move self (sr, sc) (er, ec))) sr ec = None
       \<and> get_piece (snd (make_move self (sr, sc) (er, ec))) er ec =
           Some (if er = 0 \<or> er = 7 then \<lparr>color = color piece, type = QUEEN\<rparr> else piece)
       \<and> (\<forall>r c. is_valid_position r c \<and> (r, c) \<noteq> (sr, sc) \<and> (r, c) \<noteq> (sr, ec) \<and> (r, c) \<noteq> (er, ec)
            \<longrightarrow> get_piece (snd (make_move self (sr, sc) (er, ec))) r c = get_piece self r c)"
proof -
  have vse: "is_valid_position sr ec" using vs ve by (simp add: valid_iff)
  have "fst (make_move self (sr, sc) (er, ec)) = None"
    by (simp add: make_move_ok[OF wf vs ve pc])
  moreover have "get_piece (snd (make_move self (sr, sc) (er, ec))) sr ec = None"
    unfolding get_piece_after_move[OF wf vs ve pc vse] using pawn ep row by simp
  moreover have "get_piece (snd (make_move self (sr, sc) (er, ec))) er ec =
           Some (if er = 0 \<or> er = 7 then \<lparr>color = color piece, type = QUEEN\<rparr> else piece)"
    unfolding get_piece_after_move[OF wf vs ve pc ve] using pawn row by simp
  moreover have "get_piece (snd (make_move self (sr, sc) (er, ec))) r c = get_piece self r c"
    if "is_valid_position r c" "(r, c) \<noteq> (sr, sc)" "(r, c) \<noteq> (sr, ec)" "(r, c) \<noteq> (er, ec)" for r c
    unfolding get_piece_after_move[OF wf vs ve pc that(1)] using that by auto
  ultimately show ?thesis by blast
qed

text \<open>
  The theorem at the position after Black's double step f7-f5 beside a White pawn: the Black
  pawn leaves (3, 5) and the White pawn stands on the target square (2, 5).
\<close>

theorem make_move_en_passant_capture_witness:
  "get_piece en_passant_pin_position 3 5 = Some \<lparr>color = BLACK, type = PAWN\<rparr>
   \<and> fst (make_move en_passant_pin_position (3, 4) (2, 5)) = None
   \<and> get_piece (snd (make_move en_passant_pin_position (3, 4) (2, 5))) 3 5 = None
   \<and> get_piece (snd (make_move en_passant_pin_position (3, 4) (2, 5))) 2 5 =
       Some \<lparr>color = WHITE, type = PAWN\<rparr>"
proof -
  have wf: "wf_grid (board en_passant_pin_position)" by code_simp
  have vs: "is_valid_position 3 4" and ve: "is_valid_position 2 5" by code_simp+
  have pc: "get_piece en_passant_pin_position 3 4 = Some \<lparr>color = WHITE, type = PAWN\<rparr>"
    by code_simp
  have ep: "en_passant_target en_passant_pin_position = Some (2, 5)" by code_simp
  have victim: "get_piece en_passant_pin_position 3 5 = Some \<lparr>color = BLACK, type = PAWN\<rparr>"
    by code_simp
  show ?thesis
    using make_move_en_passant_capture[OF wf vs ve pc _ ep] victim by simp
qed

text \<open>
  Claim C3. After a move that \<open>make_move\<close> completes, the en-passant target is the square
  between origin and destination rows, in the destination's column, when the mover is a pawn
  that moved exactly two rows (towards row 0 or towards row 7), and None after every other
  move. Among the destinations of \<open>get_pawn_moves\<close> the two-row moves are the double steps:
  forward for the pawn's colour, from its start row, in its own column, so that the target is
  the square the pawn jumped over.
\<close>

theorem make_move_en_passant_target:
  assumes wf: "wf_grid (board self)"
    and vs: "is_valid_position sr sc" and ve: "is_valid_position er ec"
    and pc: "get_piece self sr sc = Some piece"
  shows "fst (make_move self (sr, sc) (er, ec)) = None
       \<and> en_passant_target (snd (make_move self (sr, sc) (er, ec))) =
           (if type piece = PAWN \<and> er = sr - 2 then Some (sr - 1, ec)
            else if type piece = PAWN \<and> er = sr + 2 then Some (sr + 1, ec)
            else None)
       \<and> (type piece = PAWN \<and> (er, ec) \<in> set (get_pawn_moves self sr sc)
            \<and> (er = sr - 2 \<or> er = sr + 2)
            \<longrightarrow> ec = sc \<and> sr = (if color piece = WHITE then 6 else 1)
                \<and> er = (if color piece = WHITE then 4 else 3))"
proof -
  have "\<bar>sr - er\<bar> = 2 \<longleftrightarrow> er = sr - 2 \<or> er = sr + 2" by arith
  moreover have "er = sr - 2 \<Longrightarrow> er + (sr - er) div 2 = sr - 1" by simp
  moreover have "er = sr + 2 \<Longrightarrow> er + (sr - er) div 2 = sr + 1" by simp
  ultimately have a: "fst (make_move self (sr, sc) (er, ec)) = None
       \<and> en_passant_target (snd (make_move self (sr, sc) (er, ec))) =
           (if type piece = PAWN \<and> er = sr - 2 then Some (sr - 1, ec)
            else if type piece = PAWN \<and> er = sr + 2 then Some (sr + 1, ec)
            else None)"
    by (auto simp: make_move_ok[OF wf vs ve pc])
  have b: "ec = sc \<and> sr = (if color piece = WHITE then 6 else 1)
                \<and> er = (if color piece = WHITE then 4 else 3)"
    if "(er, ec) \<in> set (get_pawn_moves self sr sc)" "er = sr - 2 \<or> er = sr + 2"
    using pawn_move_shape[OF pc that(1)] that(2) by (auto split: if_splits)
  from a b show ?thesis by blast
qed

text \<open>
  The theorem at the opening position: the pawn's double step e2-e4 records (5, 4), a knight
  move records nothing.
\<close>

theorem make_move_en_passant_target_witness:
  "fst (make_move reset (6, 4) (4, 4)) = None
   \<and> en_passant_target (snd (make_move reset (6, 4) (4, 4))) = Some (5, 4)
   \<and> en_passant_target (snd (make_move reset (7, 1) (5, 2))) = None"
proof -
  have wf: "wf_grid (board reset)" by code_simp
  have v: "is_valid_position 6 4" "is_valid_position 4 4" "is_valid_position 7 1"
    "is_valid_position 5 2" by code_simp+
  have p1: "get_piece reset 6 4 = Some \<lparr>color = WHITE, type = PAWN\<rparr>" by code_simp
  have p2: "get_piece reset 7 1 = Some \<lparr>color = WHITE, type = KNIGHT\<rparr>" by code_simp
  show ?thesis
    using make_move_en_passant_target[OF wf v(1) v(2) p1]
      make_move_en_passant_target[OF wf v(3) v(4) p2] by simp
qed

text \<open>
  Claim C4, as amended. The destination holds a queen of the mover's colour after the move
  exactly when the mover is a pawn arriving on row 0 or row 7, or was a queen already (and
  really changed square). The source tests the destination row only; for a destination that
  \<open>get_pawn_moves\<close> produced, row 0 is reached by White alone and row 7 by Black alone.
\<close>

theorem make_move_promotion:
  assumes wf: "wf_grid (board self)"
    and vs: "is_valid_position sr sc" and ve: "is_valid_position er ec"
    and pc: "get_piece self sr sc = Some piece"
  shows "(get_piece (snd (make_move self (sr, sc) (er, ec))) er ec =
            Some \<lparr>color = color piece, type = QUEEN\<rparr>
          \<longleftrightarrow> (type piece = PAWN \<and> (er = 0 \<or> er = 7))
               \<or> (type piece = QUEEN \<and> (er, ec) \<noteq> (sr, sc)))
       \<and> (type piece = PAWN \<and> (er, ec) \<in> set (get_pawn_moves self sr sc)
            \<longrightarrow> ((er = 0 \<or> er = 7) \<longleftrightarrow> (if color piece = WHITE then er = 0 else er = 7)))"
proof -
  have a: "get_piece (snd (make_move self (sr, sc) (er, ec))) er ec =
            Some \<lparr>color = color piece, type = QUEEN\<rparr>
          \<longleftrightarrow> (type piece = PAWN \<and> (er = 0 \<or> er = 7))
               \<or> (type piece = QUEEN \<and> (er, ec) \<noteq> (sr, sc))"
    unfolding get_piece_after_move[OF wf vs ve pc ve]
    by (auto simp: Piece_queen_eq)
  have b: "(er = 0 \<or> er = 7) \<longleftrightarrow> (if color piece = WHITE then er = 0 else er = 7)"
    if "(er, ec) \<in> set (get_pawn_moves self sr sc)"
  proof -
    from vs have "0 \<le> sr" "sr < 8" by (simp_all add: valid_iff)
    moreover from that pc
    have "er = sr + (if color piece = WHITE then - 1 else 1)
        \<or> (sr = (if color piece = WHITE then 6 else 1)
            \<and> er = sr + 2 * (if color piece = WHITE then - 1 else 1))"
      by (auto simp: get_pawn_moves_def Let_def split: if_splits)
    ultimately show ?thesis by (auto split: if_splits)
  qed
  from a b show ?thesis by blast
qed

text \<open>
  The theorem at a position with a White pawn on row 1: it promotes on (0, 2), while a king
  move leaves a king.
\<close>

theorem make_move_promotion_witness:
  "get_piece (snd (make_move queen_and_pawn_position (1, 2) (0, 2))) 0 2 =
     Some \<lparr>color = WHITE, type = QUEEN\<rparr>
   \<and> get_piece (snd (make_move queen_and_pawn_position (7, 4) (6, 4))) 6 4 \<noteq>
     Some \<lparr>color = WHITE, type = QUEEN\<rparr>"
proof -
  have wf: "wf_grid (board queen_and_pawn_position)" by code_simp
  have v: "is_valid_position 1 2" "is_valid_position 0 2" "is_valid_position 7 4"
    "is_valid_position 6 4" by code_simp+
  have p1: "get_piece queen_and_pawn_position 1 2 = Some \<lparr>color = WHITE, type = PAWN\<rparr>"
    by code_simp
  have p2: "get_piece queen_and_pawn_position 7 4 = Some \<lparr>color = WHITE, type = KING\<rparr>"
    by code_simp
  show ?thesis
    using make_move_promotion[OF wf v(1) v(2) p1] make_move_promotion[OF wf v(3) v(4) p2]
    by simp
qed

text \<open>
  Claim C4 as first stated fails for a queen's move: the destination then holds a queen of
  the mover's colour although no pawn reached row 0.
\<close>

theorem make_move_promotion_counterexample:
  "get_piece queen_and_pawn_position 4 4 = Some \<lparr>color = WHITE, type = QUEEN\<rparr>
   \<and> \<not> (get_piece (snd (make_move queen_and_pawn_position (4, 4) (4, 5))) 4 5 =
            Some \<lparr>color = WHITE, type = QUEEN\<rparr>
          \<longleftrightarrow> type \<lparr>color = WHITE, type = QUEEN\<rparr> = PAWN \<and> (4::int) = 0)"
  by code_simp

text \<open>
  Claim C8. With no piece on the origin square, \<open>make_move\<close> raises (the read of
  \<open>piece.type\<close> on None is an AttributeError) before it writes anything: the board, the
  en-passant target, the side to move and the history are the ones it was given.
\<close>

theorem make_move_empty_origin:
  assumes wf: "wf_grid (board self)"
    and vs: "is_valid_position sr sc"
    and pc: "get_piece self sr sc = None"
  shows "make_move self (sr, sc) end = (Some AttributeError, self)"
proof -
  have "getitem2 (board self) sr sc = Inr None"
    using getitem2_valid[OF wf vs] pc vs by (simp add: get_piece_def)
  then show ?thesis by (cases "end") (simp add: make_move_def)
qed

text \<open>The theorem at the opening position, for the empty square (4, 4).\<close>

theorem make_move_empty_origin_witness:
  "get_piece reset 4 4 = None \<and> make_move reset (4, 4) (3, 4) = (Some AttributeError, reset)"
proof -
  have wf: "wf_grid (board reset)" by code_simp
  have vs: "is_valid_position 4 4" by code_simp
  have pc: "get_piece reset 4 4 = None" by code_simp
  show ?thesis using make_move_empty_origin[OF wf vs pc, of "(3, 4)"] pc by simp
qed

subsection \<open>Pseudo-legal moves stay on the board\<close>

lemma slide_valid:
  "(x, y) \<in> set (slide self piece row col dr dc steps) \<Longrightarrow> is_valid_position x y"
proof (induction steps)
  case Nil
  then show ?case by simp
next
  case (Cons i rest)
  then show ?case
    by (auto simp: Let_def split: if_splits option.splits)
qed

lemma step_moves_valid:
  "(x, y) \<in> set (step_moves self piece row col offsets) \<Longrightarrow> is_valid_position x y"
  by (auto simp: step_moves_def Let_def split: if_splits)

lemma rook_moves_valid: "(x, y) \<in> set (get_rook_moves self row col) \<Longrightarrow> is_valid_position x y"
  by (auto simp: get_rook_moves_def split: option.splits dest: slide_valid)

lemma bishop_moves_valid: "(x, y) \<in> set (get_bishop_moves self row col) \<Longrightarrow> is_valid_position x y"
  by (auto simp: get_bishop_moves_def split: option.splits dest: slide_valid)

lemma pawn_moves_valid:
  assumes pc: "get_piece self row col = Some piece"
    and far: "\<not> (color piece = WHITE \<and> row = 0)" "\<not> (color piece = BLACK \<and> row = 7)"
    and mem: "(x, y) \<in> set (get_pawn_moves self row col)"
  shows "is_valid_position x y"
proof -
  from pc have v: "0 \<le> row" "row < 8" "0 \<le> col" "col < 8"
    using get_piece_Some_valid[OF pc] by (simp_all add: valid_iff)
  have clr: "color piece = WHITE \<or> color piece = BLACK" by (cases "color piece") simp_all
  from mem pc have
    "(x = row + (if color piece = WHITE then - 1 else 1) \<and> y = col)
     \<or> (row = (if color piece = WHITE then 6 else 1)
         \<and> x = row + 2 * (if color piece = WHITE then - 1 else 1) \<and> y = col)
     \<or> is_valid_position x y"
    by (auto simp: get_pawn_moves_def Let_def split: if_splits)
  then show ?thesis using v far clr by (auto simp: valid_iff split: if_splits)
qed

lemma piece_moves_valid:
  assumes pc: "get_piece self row col = Some piece"
    and far: "type piece = PAWN \<longrightarrow>
                \<not> (color piece = WHITE \<and> row = 0) \<and> \<not> (color piece = BLACK \<and> row = 7)"
    and mem: "(x, y) \<in> set (Piece_get_legal_moves piece self row col)"
  shows "is_valid_position x y"
proof (cases "type piece")
  case PAWN
  then show ?thesis using pawn_moves_valid[OF pc] far mem
    by (simp add: Piece_get_legal_moves_def)
next
  case ROOK
  then show ?thesis using mem rook_moves_valid by (simp add: Piece_get_legal_moves_def)
next
  case KNIGHT
  then show ?thesis using mem pc step_moves_valid
    by (simp add: Piece_get_legal_moves_def get_knight_moves_def)
next
  case BISHOP
  then show ?thesis using mem bishop_moves_valid by (simp add: Piece_get_legal_moves_def)
next
  case QUEEN
  then show ?thesis using mem rook_moves_valid bishop_moves_valid
    by (auto simp: Piece_get_legal_moves_def get_queen_moves_def)
next
  case KING
  then show ?thesis using mem pc step_moves_valid
    by (simp add: Piece_get_legal_moves_def get_king_moves_def)
qed

text \<open>
  Claim C10. The destinations generated for the piece on a square are all on the board,
  for a pawn provided it does not stand on its farthest rank (row 0 for White, row 7 for
  Black). The forward step of \<open>get_pawn_moves\<close> has no bounds check: a pawn on its farthest
  rank gets the square beyond the edge, (-1, col) or (8, col).
\<close>

theorem pseudo_legal_moves_on_board:
  assumes pc: "get_piece self row col = Some piece"
  shows "((type piece = PAWN \<longrightarrow>
            \<not> (color piece = WHITE \<and> row = 0) \<and> \<not> (color piece = BLACK \<and> row = 7))
          \<longrightarrow> (\<forall>(x, y) \<in> set (Piece_get_legal_moves piece self row col). is_valid_position x y))
       \<and> (type piece = PAWN \<and> color piece = WHITE \<and> row = 0
            \<longrightarrow> (- 1, col) \<in> set (Piece_get_legal_moves piece self row col))
       \<and> (type piece = PAWN \<and> color piece = BLACK \<and> row = 7
            \<longrightarrow> (8, col) \<in> set (Piece_get_legal_moves piece self row col))"
proof -
  have a: "is_valid_position x y"
    if "type piece = PAWN \<longrightarrow>
            \<not> (color piece = WHITE \<and> row = 0) \<and> \<not> (color piece = BLACK \<and> row = 7)"
      and "(x, y) \<in> set (Piece_get_legal_moves piece self row col)" for x y
    using piece_moves_valid[OF pc that] .
  have out: "get_piece self (- 1) col = None" "get_piece self 8 col = None"
    by (simp_all add: get_piece_def valid_iff)
  have b: "(- 1, col) \<in> set (Piece_get_legal_moves piece self row col)"
    if "type piece = PAWN \<and> color piece = WHITE \<and> row = 0"
    using that pc out by (simp add: Piece_get_legal_moves_def get_pawn_moves_def Let_def)
  have c: "(8, col) \<in> set (Piece_get_legal_moves piece self row col)"
    if "type piece = PAWN \<and> color piece = BLACK \<and> row = 7"
    using that pc out by (simp add: Piece_get_legal_moves_def get_pawn_moves_def Let_def)
  from a b c show ?thesis by blast
qed

text \<open>
  The theorem for a knight of the opening position and for two pawns placed on their
  farthest ranks.
\<close>

theorem pseudo_legal_moves_on_board_witness:
  "Piece_get_legal_moves \<lparr>color = WHITE, type = KNIGHT\<rparr> reset 7 1 = [(5, 0), (5, 2)]
   \<and> is_valid_position 5 0 \<and> is_valid_position 5 2
   \<and> (- 1, 2) \<in> set (Piece_get_legal_moves \<lparr>color = WHITE, type = PAWN\<rparr> far_rank_pawns_position 0 2)
   \<and> (8, 5) \<in> set (Piece_get_legal_moves \<lparr>color = BLACK, type = PAWN\<rparr> far_rank_pawns_position 7 5)"
proof -
  have p1: "get_piece reset 7 1 = Some \<lparr>color = WHITE, type = KNIGHT\<rparr>" by code_simp
  have m: "Piece_get_legal_moves \<lparr>color = WHITE, type = KNIGHT\<rparr> reset 7 1 = [(5, 0), (5, 2)]"
    by code_simp
  have p2: "get_piece far_rank_pawns_position 0 2 = Some \<lparr>color = WHITE, type = PAWN\<rparr>"
    by code_simp
  have p3: "get_piece far_rank_pawns_position 7 5 = Some \<lparr>color = BLACK, type = PAWN\<rparr>"
    by code_simp
  show ?thesis
    using pseudo_legal_moves_on_board[OF p1] pseudo_legal_moves_on_board[OF p2]
      pseudo_legal_moves_on_board[OF p3] m by simp
qed

subsection \<open>Sliding pieces\<close>

lemma ray_ok_self: "ray_ok self piece row col dr dc a a \<longleftrightarrow>
     is_valid_position (row + a * dr) (col + a * dc)
     \<and> (get_piece self (row + a * dr) (col + a * dc) = None
        \<or> is_enemy (Some piece) (get_piece self (row + a * dr) (col + a * dc)))"
proof -
  have "\<not> (a \<le> j \<and> j < a)" for j :: int by simp
  then show ?thesis unfolding ray_ok_def by blast
qed

lemma ray_ok_step:
  assumes "a < k"
  shows "ray_ok self piece row col dr dc a k \<longleftrightarrow>
     is_valid_position (row + a * dr) (col + a * dc)
     \<and> get_piece self (row + a * dr) (col + a * dc) = None
     \<and> ray_ok self piece row col dr dc (a + 1) k"
proof -
  let ?P = "\<lambda>j. is_valid_position (row + j * dr) (col + j * dc)
        \<and> get_piece self (row + j * dr) (col + j * dc) = None"
  have "(\<forall>j. a \<le> j \<and> j < k \<longrightarrow> ?P j) \<longleftrightarrow> ?P a \<and> (\<forall>j. a + 1 \<le> j \<and> j < k \<longrightarrow> ?P j)"
  proof
    assume h: "\<forall>j. a \<le> j \<and> j < k \<longrightarrow> ?P j"
    have "?P a" using h assms by simp
    moreover have "?P j" if "a + 1 \<le> j \<and> j < k" for j
    proof -
      from that have "a \<le> j \<and> j < k" by simp
      then show ?thesis using h by blast
    qed
    ultimately show "?P a \<and> (\<forall>j. a + 1 \<le> j \<and> j < k \<longrightarrow> ?P j)" by blast
  next
    assume h: "?P a \<and> (\<forall>j. a + 1 \<le> j \<and> j < k \<longrightarrow> ?P j)"
    show "\<forall>j. a \<le> j \<and> j < k \<longrightarrow> ?P j"
    proof (intro allI impI)
      fix j assume "a \<le> j \<and> j < k"
      then have "j = a \<or> (a + 1 \<le> j \<and> j < k)" by arith
      then show "?P j" using h by auto
    qed
  qed
  then show ?thesis unfolding ray_ok_def by (simp only: conj_assoc)
qed

lemma slide_mem:
  "(x, y) \<in> set (slide self piece row col dr dc [a..b]) \<longleftrightarrow>
     (\<exists>k. a \<le> k \<and> k \<le> b \<and> x = row + k * dr \<and> y = col + k * dc
          \<and> ray_ok self piece row col dr dc a k)"
proof (induction a b rule: upto.induct)
  case (1 a b)
  show ?case
  proof (cases "a \<le> b")
    case False
    then show ?thesis by simp
  next
    case True
    then have up: "[a..b] = a # [a + 1..b]" by (simp add: upto_rec1)
    let ?R = "\<lambda>a. (\<exists>k. a \<le> k \<and> k \<le> b \<and> x = row + k * dr \<and> y = col + k * dc
          \<and> ray_ok self piece row col dr dc a k)"
    have IH: "(x, y) \<in> set (slide self piece row col dr dc [a + 1..b]) \<longleftrightarrow> ?R (a + 1)"
      using "1.IH"[OF True] .
    have split: "?R a \<longleftrightarrow>
        (x = row + a * dr \<and> y = col + a * dc \<and> ray_ok self piece row col dr dc a a)
        \<or> (is_valid_position (row + a * dr) (col + a * dc)
            \<and> get_piece self (row + a * dr) (col + a * dc) = None \<and> ?R (a + 1))"
    proof
      assume "?R a"
      then obtain k where k: "a \<le> k" "k \<le> b" "x = row + k * dr" "y = col + k * dc"
        "ray_ok self piece row col dr dc a k" by blast
      show "(x = row + a * dr \<and> y = col + a * dc \<and> ray_ok self piece row col dr dc a a)
        \<or> (is_valid_position (row + a * dr) (col + a * dc)
            \<and> get_piece self (row + a * dr) (col + a * dc) = None \<and> ?R (a + 1))"
      proof (cases "k = a")
        case True
        then show ?thesis using k by simp
      next
        case False
        then have lt: "a < k" using k(1) by simp
        then have "a + 1 \<le> k" by simp
        then show ?thesis using k ray_ok_step[OF lt, of self piece row col dr dc] by blast
      qed
    next
      assume "(x = row + a * dr \<and> y = col + a * dc \<and> ray_ok self piece row col dr dc a a)
        \<or> (is_valid_position (row + a * dr) (col + a * dc)
            \<and> get_piece self (row + a * dr) (col + a * dc) = None \<and> ?R (a + 1))"
      then show "?R a"
      proof
        assume "x = row + a * dr \<and> y = col + a * dc \<and> ray_ok self piece row col dr dc a a"
        then show ?thesis using True by blast
      next
        assume h: "is_valid_position (row + a * dr) (col + a * dc)
            \<and> get_piece self (row + a * dr) (col + a * dc) = None \<and> ?R (a + 1)"
        then obtain k where k: "a + 1 \<le> k" "k \<le> b" "x = row + k * dr" "y = col + k * dc"
          "ray_ok self piece row col dr dc (a + 1) k" by blast
        then have lt: "a < k" by simp
        have "ray_ok self piece row col dr dc a k"
          using ray_ok_step[OF lt, of self piece row col dr dc] h k(5) by blast
        moreover have "a \<le> k" using lt by simp
        ultimately show ?thesis using k by blast
      qed
    qed
    let ?sq = "(row + a * dr, col + a * dc)"
    have sl: "slide self piece row col dr dc [a..b] =
        (if \<not> is_valid_position (row + a * dr) (col + a * dc) then []
         else (case get_piece self (row + a * dr) (col + a * dc) of
                 None \<Rightarrow> ?sq # slide self piece row col dr dc [a + 1..b]
               | Some target \<Rightarrow> if is_enemy (Some piece) (Some target) then [?sq] else []))"
      unfolding up by (simp only: slide.simps Let_def)
    show ?thesis
    proof (cases "is_valid_position (row + a * dr) (col + a * dc)")
      case False
      have l: "\<not> (x, y) \<in> set (slide self piece row col dr dc [a..b])"
        unfolding sl using False by simp
      have r: "\<not> ?R a" unfolding split ray_ok_self using False by blast
      from l r show ?thesis by blast
    next
      case v: True
      show ?thesis
      proof (cases "get_piece self (row + a * dr) (col + a * dc)")
        case None
        have "(x, y) \<in> set (slide self piece row col dr dc [a..b]) \<longleftrightarrow>
                (x, y) = ?sq \<or> (x, y) \<in> set (slide self piece row col dr dc [a + 1..b])"
          unfolding sl using v None by simp
        moreover have "ray_ok self piece row col dr dc a a"
          unfolding ray_ok_self using v None by blast
        ultimately show ?thesis unfolding split IH using v None by blast
      next
        case (Some target)
        have l: "(x, y) \<in> set (slide self piece row col dr dc [a..b]) \<longleftrightarrow>
                (x, y) = ?sq \<and> is_enemy (Some piece) (Some target)"
          unfolding sl using v Some by simp
        have "ray_ok self piece row col dr dc a a \<longleftrightarrow> is_enemy (Some piece) (Some target)"
          unfolding ray_ok_self using v Some by simp
        then show ?thesis unfolding split l using Some by auto
      qed
    qed
  qed
qed

lemma compass_cases:
  assumes "(dr, dc) \<in> set (rook_directions @ bishop_directions)"
  shows "(dr = - 1 \<or> dr = 0 \<or> dr = 1) \<and> (dc = - 1 \<or> dc = 0 \<or> dc = 1) \<and> (dr \<noteq> 0 \<or> dc \<noteq> 0)"
  using assms by (auto simp: rook_directions_def bishop_directions_def)

lemma ray_unique:
  assumes d: "(dr, dc) \<in> set (rook_directions @ bishop_directions)"
    and d': "(dr', dc') \<in> set (rook_directions @ bishop_directions)"
    and k: "1 \<le> k" "1 \<le> k'"
    and eq: "k * dr = k' * dr'" "k * dc = k' * dc'"
  shows "dr = dr' \<and> dc = dc' \<and> k = k'"
proof -
  note c = compass_cases[OF d] compass_cases[OF d']
  have r: "dr = dr'" using c k eq by auto
  have cc: "dc = dc'" using c k eq by auto
  have "k = k'" using c k eq r cc by auto
  with r cc show ?thesis by simp
qed

lemma ray_valid_between:
  assumes d: "(dr, dc) \<in> set (rook_directions @ bishop_directions)"
    and o: "is_valid_position row col"
    and v: "is_valid_position (row + k * dr) (col + k * dc)"
    and j: "1 \<le> j" "j < k"
  shows "is_valid_position (row + j * dr) (col + j * dc)"
  using compass_cases[OF d] o v j by (auto simp: valid_iff)

lemma ray_valid_le7:
  assumes d: "(dr, dc) \<in> set (rook_directions @ bishop_directions)"
    and o: "is_valid_position row col"
    and v: "is_valid_position (row + k * dr) (col + k * dc)"
    and k: "1 \<le> k"
  shows "k \<le> 7"
  using compass_cases[OF d] o v k by (auto simp: valid_iff)

lemma slides_mem:
  "(x, y) \<in> set (concat (map (\<lambda>(dr, dc). slide self piece row col dr dc [1..7]) dirs)) \<longleftrightarrow>
     (\<exists>(dr, dc) \<in> set dirs. \<exists>k. 1 \<le> k \<and> k \<le> 7 \<and> x = row + k * dr \<and> y = col + k * dc
          \<and> ray_ok self piece row col dr dc 1 k)"
proof -
  have "(x, y) \<in> set (concat (map (\<lambda>(dr, dc). slide self piece row col dr dc [1..7]) dirs)) \<longleftrightarrow>
     (\<exists>(dr, dc) \<in> set dirs. (x, y) \<in> set (slide self piece row col dr dc [1..7]))"
    by auto
  then show ?thesis unfolding slide_mem .
qed

lemma ray_square_mem:
  assumes sub: "set dirs \<subseteq> set (rook_directions @ bishop_directions)"
    and d: "(dr, dc) \<in> set dirs"
    and o: "is_valid_position row col"
    and k: "1 \<le> k"
  shows "(row + k * dr, col + k * dc)
           \<in> set (concat (map (\<lambda>(dr, dc). slide self piece row col dr dc [1..7]) dirs)) \<longleftrightarrow>
         is_valid_position (row + k * dr) (col + k * dc)
         \<and> (\<forall>j. 1 \<le> j \<and> j < k \<longrightarrow> get_piece self (row + j * dr) (col + j * dc) = None)
         \<and> (get_piece self (row + k * dr) (col + k * dc) = None
            \<or> is_enemy (Some piece) (get_piece self (row + k * dr) (col + k * dc)))"
    (is "?L \<longleftrightarrow> ?R")
proof
  assume ?L
  then obtain dr' dc' k' where d': "(dr', dc') \<in> set dirs" and k': "1 \<le> k'" "k' \<le> 7"
    and eq: "row + k * dr = row + k' * dr'" "col + k * dc = col + k' * dc'"
    and ok: "ray_ok self piece row col dr' dc' 1 k'"
    unfolding slides_mem by blast
  have "dr = dr' \<and> dc = dc' \<and> k = k'"
    using ray_unique[of dr dc dr' dc' k k'] sub d d' k k' eq by auto
  with ok have "ray_ok self piece row col dr dc 1 k" by simp
  then show ?R unfolding ray_ok_def by blast
next
  assume r: ?R
  have dcomp: "(dr, dc) \<in> set (rook_directions @ bishop_directions)" using sub d by blast
  from r have v: "is_valid_position (row + k * dr) (col + k * dc)" by blast
  have k7: "k \<le> 7" using ray_valid_le7[OF dcomp o v k] .
  have "ray_ok self piece row col dr dc 1 k"
    unfolding ray_ok_def using r ray_valid_between[OF dcomp o v] by blast
  then show ?L unfolding slides_mem using d k k7 by blast
qed

text \<open>
  Claim C7. For a rook, bishop or queen and each of its directions, the square \<open>k\<close> steps
  away is generated exactly when it is on the board, every square before it in that direction
  is empty, and it is empty or holds an enemy piece. So the empty squares up to the first
  occupied one are generated, the first occupied one exactly when it holds an enemy, and
  nothing beyond it.
\<close>

theorem sliding_moves_stop_at_first_piece:
  assumes pc: "get_piece self row col = Some piece"
    and dir: "(type piece = ROOK \<and> (dr, dc) \<in> set rook_directions)
            \<or> (type piece = BISHOP \<and> (dr, dc) \<in> set bishop_directions)
            \<or> (type piece = QUEEN \<and> (dr, dc) \<in> set (rook_directions @ bishop_directions))"
    and k: "1 \<le> k"
  shows "(row + k * dr, col + k * dc) \<in> set (Piece_get_legal_moves piece self row col) \<longleftrightarrow>
           is_valid_position (row + k * dr) (col + k * dc)
           \<and> (\<forall>j. 1 \<le> j \<and> j < k \<longrightarrow> get_piece self (row + j * dr) (col + j * dc) = None)
           \<and> (get_piece self (row + k * dr) (col + k * dc) = None
              \<or> is_enemy (Some piece) (get_piece self (row + k * dr) (col + k * dc)))"
proof -
  have o: "is_valid_position row col" using pc by (rule get_piece_Some_valid)
  have qm: "get_queen_moves self row col =
      concat (map (\<lambda>(dr, dc). slide self piece row col dr dc [1..7])
                  (rook_directions @ bishop_directions))"
    using pc by (simp add: get_queen_moves_def get_rook_moves_def get_bishop_moves_def)
  from dir consider
      (rook) "type piece = ROOK" "(dr, dc) \<in> set rook_directions"
    | (bishop) "type piece = BISHOP" "(dr, dc) \<in> set bishop_directions"
    | (queen) "type piece = QUEEN" "(dr, dc) \<in> set (rook_directions @ bishop_directions)"
    by blast
  then show ?thesis
  proof cases
    case rook
    have "Piece_get_legal_moves piece self row col =
        concat (map (\<lambda>(dr, dc). slide self piece row col dr dc [1..7]) rook_directions)"
      using rook(1) pc by (simp add: Piece_get_legal_moves_def get_rook_moves_def)
    then show ?thesis using ray_square_mem[OF _ rook(2) o k, of self piece] by simp
  next
    case bishop
    have "Piece_get_legal_moves piece self row col =
        concat (map (\<lambda>(dr, dc). slide self piece row col dr dc [1..7]) bishop_directions)"
      using bishop(1) pc by (simp add: Piece_get_legal_moves_def get_bishop_moves_def)
    then show ?thesis using ray_square_mem[OF _ bishop(2) o k, of self piece] by simp
  next
    case queen
    have "Piece_get_legal_moves piece self row col =
        concat (map (\<lambda>(dr, dc). slide self piece row col dr dc [1..7])
                  (rook_directions @ bishop_directions))"
      using queen(1) by (simp add: Piece_get_legal_moves_def qm)
    then show ?thesis using ray_square_mem[OF _ queen(2) o k, of self piece] by simp
  qed
qed

text \<open>
  The theorem for a White rook with a Black pawn two squares to its right and a White pawn
  two squares above it: the Black pawn's square is generated, the one behind it is not, and
  the White pawn's square is not.
\<close>

theorem sliding_moves_stop_at_first_piece_witness:
  "(4, 6) \<in> set (Piece_get_legal_moves \<lparr>color = WHITE, type = ROOK\<rparr> sliding_position 4 4)
   \<and> get_piece sliding_position 4 5 = None
   \<and> is_enemy (Some \<lparr>color = WHITE, type = ROOK\<rparr>) (get_piece sliding_position 4 6)
   \<and> (4, 7) \<notin> set (Piece_get_legal_moves \<lparr>color = WHITE, type = ROOK\<rparr> sliding_position 4 4)
   \<and> (2, 4) \<notin> set (Piece_get_legal_moves \<lparr>color = WHITE, type = ROOK\<rparr> sliding_position 4 4)"
proof -
  let ?rook = "\<lparr>color = WHITE, type = ROOK\<rparr>"
  have pc: "get_piece sliding_position 4 4 = Some ?rook" by code_simp
  have east: "(type ?rook = ROOK \<and> (0, 1) \<in> set rook_directions)
            \<or> (type ?rook = BISHOP \<and> (0, 1) \<in> set bishop_directions)
            \<or> (type ?rook = QUEEN \<and> (0, 1) \<in> set (rook_directions @ bishop_directions))"
    by code_simp
  have north: "(type ?rook = ROOK \<and> (- 1, 0) \<in> set rook_directions)
            \<or> (type ?rook = BISHOP \<and> (- 1, 0) \<in> set bishop_directions)
            \<or> (type ?rook = QUEEN \<and> (- 1, 0) \<in> set (rook_directions @ bishop_directions))"
    by code_simp
  have m2: "(4, 6) \<in> set (Piece_get_legal_moves ?rook sliding_position 4 4)" by code_simp
  have p6: "get_piece sliding_position 4 6 = Some \<lparr>color = BLACK, type = PAWN\<rparr>" by code_simp
  have p2: "get_piece sliding_position 2 4 = Some \<lparr>color = WHITE, type = PAWN\<rparr>" by code_simp
  have e2: "(\<forall>j::int. 1 \<le> j \<and> j < 2 \<longrightarrow> get_piece sliding_position (4 + j * 0) (4 + j * 1) = None)
            \<and> is_enemy (Some ?rook) (get_piece sliding_position 4 6)"
    using sliding_moves_stop_at_first_piece[OF pc east, of 2] m2 p6 by simp
  then have a: "get_piece sliding_position 4 5 = None" by (auto dest: spec[of _ 1])
  have b: "(4, 7) \<notin> set (Piece_get_legal_moves ?rook sliding_position 4 4)"
    using sliding_moves_stop_at_first_piece[OF pc east, of 3] p6 by (auto dest: spec[of _ 2])
  have c: "(2, 4) \<notin> set (Piece_get_legal_moves ?rook sliding_position 4 4)"
    using sliding_moves_stop_at_first_piece[OF pc north, of 2] p2 by (simp add: is_enemy_def)
  from m2 a e2 b c show ?thesis by blast
qed

subsection \<open>Check\<close>

lemma mem_all_squares: "(r, c) \<in> set all_squares \<longleftrightarrow> is_valid_position r c"
proof -
  have "(r, c) \<in> set all_squares \<longleftrightarrow> r \<in> {0..7} \<and> c \<in> {0..7}"
    by (force simp: all_squares_def ROWS_def COLS_def)
  then show ?thesis by (auto simp: valid_iff)
qed

lemma set_all_squares: "set all_squares = {(r, c). is_valid_position r c}"
  using mem_all_squares by auto

lemma is_square_attacked_iff:
  "is_square_attacked self row col attacking_color \<longleftrightarrow>
     (\<exists>r c piece. get_piece self r c = Some piece \<and> color piece = attacking_color
        \<and> (row, col) \<in> set (Piece_get_legal_moves piece self r c))"
proof -
  have "is_square_attacked self row col attacking_color \<longleftrightarrow>
     (\<exists>r c. is_valid_position r c \<and> (\<exists>piece. get_piece self r c = Some piece
        \<and> color piece = attacking_color
        \<and> (row, col) \<in> set (Piece_get_legal_moves piece self r c)))"
    unfolding is_square_attacked_def list_ex_iff set_all_squares
    by (fastforce split: option.splits)
  then show ?thesis using get_piece_Some_valid by blast
qed

lemma find_king_None_iff:
  "find_king self clr = None \<longleftrightarrow>
     (\<forall>r c piece. get_piece self r c = Some piece \<longrightarrow> \<not> (color piece = clr \<and> type piece = KING))"
proof -
  have "find_king self clr = None \<longleftrightarrow>
     (\<forall>r c. is_valid_position r c \<longrightarrow>
        (\<forall>piece. get_piece self r c = Some piece \<longrightarrow> \<not> (color piece = clr \<and> type piece = KING)))"
    unfolding find_king_def find_None_iff set_all_squares
    by (auto split: option.splits)
  then show ?thesis using get_piece_Some_valid by blast
qed

lemma find_king_Some:
  assumes "find_king self clr = Some (kr, kc)"
  shows "\<exists>piece. get_piece self kr kc = Some piece \<and> color piece = clr \<and> type piece = KING"
proof -
  from assms have "(case get_piece self kr kc of None \<Rightarrow> False
                    | Some piece \<Rightarrow> color piece = clr \<and> type piece = KING)"
    unfolding find_king_def by (auto simp: find_Some_iff)
  then show ?thesis by (auto split: option.splits)
qed

text \<open>
  Claim C6. \<open>find_king\<close> returns None exactly when no king of the colour is on the board,
  and then \<open>is_in_check\<close> is False, a normal result. Otherwise \<open>find_king\<close> returns a
  square holding that king, and \<open>is_in_check\<close> is True exactly when that square is among the
  pseudo-legal destinations of some piece of the opposing colour.
\<close>

theorem is_in_check_iff_king_attacked:
  "(find_king self clr = None \<longleftrightarrow>
      (\<forall>r c piece. get_piece self r c = Some piece \<longrightarrow> \<not> (color piece = clr \<and> type piece = KING)))
   \<and> (find_king self clr = None \<longrightarrow> \<not> is_in_check self clr)
   \<and> (\<forall>kr kc. find_king self clr = Some (kr, kc) \<longrightarrow>
         (\<exists>king. get_piece self kr kc = Some king \<and> color king = clr \<and> type king = KING)
         \<and> (is_in_check self clr \<longleftrightarrow>
              (\<exists>r c piece. get_piece self r c = Some piece
                 \<and> color piece = (if clr = WHITE then BLACK else WHITE)
                 \<and> (kr, kc) \<in> set (Piece_get_legal_moves piece self r c))))"
proof -
  have a: "find_king self clr = None \<longleftrightarrow>
      (\<forall>r c piece. get_piece self r c = Some piece \<longrightarrow> \<not> (color piece = clr \<and> type piece = KING))"
    by (rule find_king_None_iff)
  have b: "find_king self clr = None \<longrightarrow> \<not> is_in_check self clr"
    by (simp add: is_in_check_def)
  have c: "(\<exists>king. get_piece self kr kc = Some king \<and> color king = clr \<and> type king = KING)
         \<and> (is_in_check self clr \<longleftrightarrow>
              (\<exists>r c piece. get_piece self r c = Some piece
                 \<and> color piece = (if clr = WHITE then BLACK else WHITE)
                 \<and> (kr, kc) \<in> set (Piece_get_legal_moves piece self r c)))"
    if k: "find_king self clr = Some (kr, kc)" for kr kc
  proof -
    have "is_in_check self clr \<longleftrightarrow>
            is_square_attacked self kr kc (if clr = WHITE then BLACK else WHITE)"
      using k by (simp add: is_in_check_def)
    then show ?thesis using find_king_Some[OF k] unfolding is_square_attacked_iff by blast
  qed
  from a b c show ?thesis by blast
qed

text \<open>
  The theorem for a Black king attacked by a White queen, and for a board without a White
  king.
\<close>

theorem is_in_check_iff_king_attacked_witness:
  "find_king checkmate_position BLACK = Some (0, 0)
   \<and> is_in_check checkmate_position BLACK
   \<and> (\<exists>r c piece. get_piece checkmate_position r c = Some piece \<and> color piece = WHITE
         \<and> (0, 0) \<in> set (Piece_get_legal_moves piece checkmate_position r c))
   \<and> find_king far_rank_pawns_position WHITE = None
   \<and> \<not> is_in_check far_rank_pawns_position WHITE"
proof -
  have k: "find_king checkmate_position BLACK = Some (0, 0)" by code_simp
  have chk: "is_in_check checkmate_position BLACK" by code_simp
  have nk: "find_king far_rank_pawns_position WHITE = None" by code_simp
  show ?thesis
    using is_in_check_iff_king_attacked[of checkmate_position BLACK]
      is_in_check_iff_king_attacked[of far_rank_pawns_position WHITE] k chk nk
    by simp
qed

subsection \<open>Checkmate and stalemate\<close>

lemma no_moves_scan_True_iff:
  "no_moves_scan self clr sqs = Inr True \<longleftrightarrow>
     (\<forall>(r, c) \<in> set sqs. \<forall>piece. get_piece self r c = Some piece \<and> color piece = clr
         \<longrightarrow> get_legal_moves self r c = Inr [])"
proof (induction sqs)
  case Nil
  then show ?case by simp
next
  case (Cons sq rest)
  obtain r c where sq: "sq = (r, c)" by (cases sq)
  show ?case
  proof (cases "get_piece self r c")
    case None
    then show ?thesis using Cons.IH sq by simp
  next
    case (Some piece)
    show ?thesis
    proof (cases "color piece = clr")
      case False
      then show ?thesis using Cons.IH sq Some by simp
    next
      case True
      show ?thesis
      proof (cases "get_legal_moves self r c")
        case (Inl e)
        then show ?thesis using sq Some True by simp
      next
        case (Inr ms)
        then show ?thesis using Cons.IH sq Some True by (cases ms) simp_all
      qed
    qed
  qed
qed

lemma no_moves_all_squares:
  "no_moves_scan self clr all_squares = Inr True \<longleftrightarrow>
     (\<forall>r c piece. get_piece self r c = Some piece \<and> color piece = clr
         \<longrightarrow> get_legal_moves self r c = Inr [])"
proof -
  have "no_moves_scan self clr all_squares = Inr True \<longleftrightarrow>
     (\<forall>r c. is_valid_position r c \<longrightarrow> (\<forall>piece. get_piece self r c = Some piece \<and> color piece = clr
         \<longrightarrow> get_legal_moves self r c = Inr []))"
    unfolding no_moves_scan_True_iff set_all_squares by auto
  then show ?thesis using get_piece_Some_valid by blast
qed

text \<open>
  Claim C5. \<open>is_checkmate\<close> returns True exactly when the colour is in check and
  \<open>get_legal_moves\<close> returns the empty list for every square holding a piece of the colour;
  \<open>is_stalemate\<close> returns True exactly when the colour is not in check and the same holds.
  The two are never both True.
\<close>

theorem checkmate_stalemate_iff:
  "(is_checkmate self clr = Inr True \<longleftrightarrow>
      is_in_check self clr
      \<and> (\<forall>r c piece. get_piece self r c = Some piece \<and> color piece = clr
            \<longrightarrow> get_legal_moves self r c = Inr []))
   \<and> (is_stalemate self clr = Inr True \<longleftrightarrow>
      \<not> is_in_check self clr
      \<and> (\<forall>r c piece. get_piece self r c = Some piece \<and> color piece = clr
            \<longrightarrow> get_legal_moves self r c = Inr []))
   \<and> \<not> (is_checkmate self clr = Inr True \<and> is_stalemate self clr = Inr True)"
  unfolding is_checkmate_def is_stalemate_def
  using no_moves_all_squares[of self clr] by auto

text \<open>
  The theorem for a king mated by a protected queen and for a king stalemated in the
  corner.
\<close>

theorem checkmate_stalemate_iff_witness:
  "is_checkmate checkmate_position BLACK = Inr True
   \<and> is_in_check checkmate_position BLACK
   \<and> get_legal_moves checkmate_position 0 0 = Inr []
   \<and> is_stalemate checkmate_position BLACK \<noteq> Inr True
   \<and> is_stalemate stalemate_position BLACK = Inr True
   \<and> \<not> is_in_check stalemate_position BLACK
   \<and> get_legal_moves stalemate_position 0 0 = Inr []
   \<and> is_checkmate stalemate_position BLACK \<noteq> Inr True"
proof -
  have cm: "is_checkmate checkmate_position BLACK = Inr True" by code_simp
  have sm: "is_stalemate stalemate_position BLACK = Inr True" by code_simp
  have k1: "get_piece checkmate_position 0 0 = Some \<lparr>color = BLACK, type = KING\<rparr>" by code_simp
  have k2: "get_piece stalemate_position 0 0 = Some \<lparr>color = BLACK, type = KING\<rparr>" by code_simp
  note t1 = checkmate_stalemate_iff[of checkmate_position BLACK]
  note t2 = checkmate_stalemate_iff[of stalemate_position BLACK]
  have a: "is_in_check checkmate_position BLACK" using t1 cm by blast
  have b: "get_legal_moves checkmate_position 0 0 = Inr []" using t1 cm k1 by auto
  have c: "is_stalemate checkmate_position BLACK \<noteq> Inr True" using t1 cm by blast
  have d: "\<not> is_in_check stalemate_position BLACK" using t2 sm by blast
  have e: "get_legal_moves stalemate_position 0 0 = Inr []" using t2 sm k2 by auto
  have f: "is_checkmate stalemate_position BLACK \<noteq> Inr True" using t2 sm by blast
  from cm sm a b c d e f show ?thesis by blast
qed

subsection \<open>What get_legal_moves computes\<close>

text \<open>
  Check detection reads the rows and the en-passant target of a board and nothing else.
\<close>

lemma get_piece_cong:
  "board a = board b \<Longrightarrow> get_piece a = get_piece b"
  by (auto simp: get_piece_def fun_eq_iff)

lemma slide_cong:
  "get_piece a = get_piece b \<Longrightarrow>
   slide a piece row col dr dc steps = slide b piece row col dr dc steps"
  by (induction steps) (simp_all add: Let_def split: option.splits)

lemma Piece_get_legal_moves_cong:
  assumes bd: "board a = board b" and ep: "en_passant_target a = en_passant_target b"
  shows "Piece_get_legal_moves piece a row col = Piece_get_legal_moves piece b row col"
proof -
  note gp = get_piece_cong[OF bd]
  have sl: "slide a = slide b" using slide_cong[OF gp] by (simp add: fun_eq_iff)
  have "get_pawn_moves a row col = get_pawn_moves b row col"
    unfolding get_pawn_moves_def gp ep by (rule refl)
  moreover have "get_rook_moves a row col = get_rook_moves b row col"
    unfolding get_rook_moves_def gp sl by (rule refl)
  moreover have "get_bishop_moves a row col = get_bishop_moves b row col"
    unfolding get_bishop_moves_def gp sl by (rule refl)
  moreover have "get_knight_moves a row col = get_knight_moves b row col"
    unfolding get_knight_moves_def step_moves_def gp by (rule refl)
  moreover have "get_king_moves a row col = get_king_moves b row col"
    unfolding get_king_moves_def step_moves_def gp by (rule refl)
  ultimately show ?thesis
    by (simp add: Piece_get_legal_moves_def get_queen_moves_def split: PieceType.splits)
qed

lemma is_in_check_cong:
  assumes bd: "board a = board b" and ep: "en_passant_target a = en_passant_target b"
  shows "is_in_check a clr = is_in_check b clr"
proof -
  note gp = get_piece_cong[OF bd]
  have pm: "Piece_get_legal_moves piece a r c = Piece_get_legal_moves piece b r c" for piece r c
    using bd ep by (rule Piece_get_legal_moves_cong)
  have fk: "find_king a = find_king b" unfolding find_king_def gp by (rule refl)
  have sa: "is_square_attacked a = is_square_attacked b"
    unfolding is_square_attacked_def gp pm by (rule refl)
  show ?thesis unfolding is_in_check_def fk sa by (rule refl)
qed

text \<open>
  What the loop computes: the pseudo-legal moves after which the mover's colour is not in
  check on a scratch board that has the rows of \<open>self\<close> and no en-passant target.
\<close>

lemma scratch_board_has_no_en_passant_target:
  "en_passant_target (reset\<lparr>board := map (\<lambda>row. row) (board self)\<rparr>) = None"
  by (simp add: reset_def)

lemma legal_loop_filter:
  assumes "legal_loop self piece start moves = Inr legal_moves"
  shows "legal_moves =
           filter (\<lambda>move. \<not> is_in_check
                     (snd (make_move (reset\<lparr>board := map (\<lambda>row. row) (board self)\<rparr>) start move))
                     (color piece)) moves"
  using assms
proof (induction moves arbitrary: legal_moves)
  case Nil
  then show ?case by simp
next
  case (Cons move rest)
  let ?temp = "reset\<lparr>board := map (\<lambda>row. row) (board self)\<rparr>"
  obtain err temp' where mm: "make_move ?temp start move = (err, temp')"
    by (cases "make_move ?temp start move")
  from Cons.prems mm obtain ms where none: "err = None"
    and rest: "legal_loop self piece start rest = Inr ms"
    and lm: "legal_moves = (if \<not> is_in_check temp' (color piece) then move # ms else ms)"
    by (cases err; cases "legal_loop self piece start rest") (auto simp: Let_def)
  have "ms = filter (\<lambda>move. \<not> is_in_check (snd (make_move ?temp start move)) (color piece)) rest"
    using Cons.IH[OF rest] .
  then show ?case using lm mm by simp
qed

text \<open>
  On a board of eight rows of eight cells, for the piece on a square (a pawn not on its
  farthest rank), \<open>get_legal_moves\<close> returns normally, and what it returns is the list of
  pseudo-legal destinations that leave the mover's colour out of check when the move is
  applied to the position with its en-passant target dropped.
\<close>

lemma promoted_cong:
  "board a = board b \<Longrightarrow> en_passant_target a = en_passant_target b \<Longrightarrow>
   promoted a piece start end = promoted b piece start end"
  by (simp add: promoted_def relocated_def ep_cleared_def)

lemma make_move_check_cong:
  assumes bd: "board a = board b" and ep: "en_passant_target a = en_passant_target b"
    and wf: "wf_grid (board a)"
    and vs: "is_valid_position sr sc" and ve: "is_valid_position er ec"
    and pc: "get_piece a sr sc = Some piece"
  shows "fst (make_move a (sr, sc) (er, ec)) = None"
    and "is_in_check (snd (make_move a (sr, sc) (er, ec))) clr
         = is_in_check (snd (make_move b (sr, sc) (er, ec))) clr"
proof -
  have wfb: "wf_grid (board b)" using wf bd by simp
  have pcb: "get_piece b sr sc = Some piece" using pc get_piece_cong[OF bd] by simp
  note ma = make_move_ok[OF wf vs ve pc]
  note mb = make_move_ok[OF wfb vs ve pcb]
  show "fst (make_move a (sr, sc) (er, ec)) = None" by (simp add: ma)
  have "board (snd (make_move a (sr, sc) (er, ec))) = board (snd (make_move b (sr, sc) (er, ec)))"
    by (simp add: ma mb promoted_cong[OF bd ep])
  moreover have "en_passant_target (snd (make_move a (sr, sc) (er, ec)))
                 = en_passant_target (snd (make_move b (sr, sc) (er, ec)))"
    by (simp add: ma mb)
  ultimately show "is_in_check (snd (make_move a (sr, sc) (er, ec))) clr
         = is_in_check (snd (make_move b (sr, sc) (er, ec))) clr"
    by (rule is_in_check_cong)
qed

lemma legal_loop_valid_moves:
  assumes wf: "wf_grid (board self)" and pc: "get_piece self row col = Some piece"
    and valid: "\<forall>(x, y) \<in> set moves. is_valid_position x y"
  shows "legal_loop self piece (row, col) moves =
           Inr (filter (\<lambda>move. \<not> is_in_check
                          (snd (make_move (self\<lparr>en_passant_target := None\<rparr>) (row, col) move))
                          (color piece)) moves)"
  using valid
proof (induction moves)
  case Nil
  then show ?case by simp
next
  case (Cons move rest)
  obtain er ec where mv: "move = (er, ec)" by (cases move)
  let ?temp = "reset\<lparr>board := map (\<lambda>row. row) (board self)\<rparr>"
  let ?self0 = "self\<lparr>en_passant_target := None\<rparr>"
  have bd: "board ?temp = board ?self0" by simp
  have ep: "en_passant_target ?temp = en_passant_target ?self0" by (simp add: reset_def)
  have wft: "wf_grid (board ?temp)" using wf by simp
  have vs: "is_valid_position row col" using pc by (rule get_piece_Some_valid)
  have ve: "is_valid_position er ec" using Cons.prems mv by simp
  have pct: "get_piece ?temp row col = Some piece"
    using pc get_piece_cong[of ?temp self] by simp
  note mc = make_move_check_cong[OF bd ep wft vs ve pct]
  obtain temp' where mm: "make_move ?temp (row, col) move = (None, temp')"
    using mc(1) mv by (cases "make_move ?temp (row, col) move") simp
  have chk: "is_in_check temp' (color piece)
               = is_in_check (snd (make_move ?self0 (row, col) move)) (color piece)"
    using mc(2)[of "color piece"] mm mv by simp
  have rest: "legal_loop self piece (row, col) rest =
           Inr (filter (\<lambda>move. \<not> is_in_check (snd (make_move ?self0 (row, col) move))
                          (color piece)) rest)"
    using Cons.IH Cons.prems by simp
  show ?case using mm chk rest by simp
qed

lemma get_legal_moves_simulates_without_target:
  assumes wf: "wf_grid (board self)" and pc: "get_piece self row col = Some piece"
    and far: "type piece = PAWN \<longrightarrow>
                \<not> (color piece = WHITE \<and> row = 0) \<and> \<not> (color piece = BLACK \<and> row = 7)"
  shows "get_legal_moves self row col =
           Inr (filter (\<lambda>move. \<not> is_in_check
                          (snd (make_move (self\<lparr>en_passant_target := None\<rparr>) (row, col) move))
                          (color piece))
                  (Piece_get_legal_moves piece self row col))"
proof -
  have "\<forall>(x, y) \<in> set (Piece_get_legal_moves piece self row col). is_valid_position x y"
    using piece_moves_valid[OF pc far] by blast
  then show ?thesis using legal_loop_valid_moves[OF wf pc] pc
    by (simp add: get_legal_moves_def)
qed

text \<open>
  Claim C1. \<open>get_legal_moves\<close> builds its scratch board with \<open>Board()\<close> and copies the rows
  only, so the scratch board's en-passant target is None and the simulated capture en passant
  leaves the passed pawn on the board. In \<open>en_passant_pin_position\<close> the White pawn on (3, 4)
  may capture en passant on (2, 5); the capture, applied by \<open>make_move\<close> to the position itself,
  clears the row between the White king and the Black rook and leaves White in check, yet
  \<open>get_legal_moves\<close> returns (2, 5).
\<close>

theorem get_legal_moves_keeps_exposing_en_passant:
  "en_passant_target en_passant_pin_position = Some (2, 5)
   \<and> get_pawn_moves en_passant_pin_position 3 4 = [(2, 4), (2, 5)]
   \<and> fst (make_move en_passant_pin_position (3, 4) (2, 5)) = None
   \<and> is_in_check (snd (make_move en_passant_pin_position (3, 4) (2, 5))) WHITE
   \<and> get_legal_moves en_passant_pin_position 3 4 = Inr [(2, 4), (2, 5)]"
  by code_simp

subsection \<open>What get_legal_moves writes\<close>

lemma rows_kept_refl: "rows_kept st st"
  by (simp add: rows_kept_def)

lemma rows_kept_trans: "rows_kept st st1 \<Longrightarrow> rows_kept st1 st2 \<Longrightarrow> rows_kept st st2"
  by (auto simp: rows_kept_def)

lemma py_index_less: "py_index i n = Some k \<Longrightarrow> k < n"
  by (auto simp: py_index_def split: if_splits)

lemma alloc_rows_kept:
  assumes "alloc_rows st rows = (st', rs)"
  shows "rows_kept st st'" and "length st' = length st + length rows"
    and "set rs = {length st..<length st'}" and "distinct rs" and "length rs = length rows"
  using assms by (auto simp: alloc_rows_def rows_kept_def nth_append)

lemma setitem2_ref_frame:
  assumes "setitem2_ref st rs r c v = Inr st'"
  shows "length st' = length st" and "\<And>a. a \<notin> set rs \<Longrightarrow> st' ! a = st ! a"
proof -
  from assms obtain i j where i: "py_index r (length rs) = Some i"
    and st': "st' = st[rs ! i := (st ! (rs ! i))[j := v]]"
    by (auto simp: setitem2_ref_def split: option.splits)
  show "length st' = length st" using st' by simp
  fix a assume "a \<notin> set rs"
  moreover have "rs ! i \<in> set rs" using py_index_less[OF i] by simp
  ultimately have "a \<noteq> rs ! i" by blast
  then show "st' ! a = st ! a" using st' by simp
qed

lemma initial_writes_frame:
  "length (foldl (\<lambda>st col.
        (let st = st[a0 := (st ! a0)[col := v0 col]];
             st = st[a1 := (st ! a1)[col := v1 col]];
             st = st[a6 := (st ! a6)[col := v6 col]];
             st = st[a7 := (st ! a7)[col := v7 col]]
         in st)) st cols) = length st
   \<and> (\<forall>a. a \<notin> {a0, a1, a6, a7} \<longrightarrow>
        foldl (\<lambda>st col.
        (let st = st[a0 := (st ! a0)[col := v0 col]];
             st = st[a1 := (st ! a1)[col := v1 col]];
             st = st[a6 := (st ! a6)[col := v6 col]];
             st = st[a7 := (st ! a7)[col := v7 col]]
         in st)) st cols ! a = st ! a)"
  by (induction cols arbitrary: st) (simp_all add: Let_def)

lemma set_initial_position_ref_frame:
  assumes "length rs = 8"
  shows "length (set_initial_position_ref st rs) = length st"
    and "\<And>a. a \<notin> set rs \<Longrightarrow> set_initial_position_ref st rs ! a = st ! a"
proof -
  show "length (set_initial_position_ref st rs) = length st"
    unfolding set_initial_position_ref_def initial_column_ref_def
    by (rule initial_writes_frame[THEN conjunct1])
  have fr: "\<forall>a. a \<notin> {rs ! 0, rs ! 1, rs ! 6, rs ! 7} \<longrightarrow>
              set_initial_position_ref st rs ! a = st ! a"
    unfolding set_initial_position_ref_def initial_column_ref_def
    by (rule initial_writes_frame[THEN conjunct2])
  fix a assume a: "a \<notin> set rs"
  have "rs ! 0 \<in> set rs" "rs ! 1 \<in> set rs" "rs ! 6 \<in> set rs" "rs ! 7 \<in> set rs"
    using assms by simp_all
  then have "a \<notin> {rs ! 0, rs ! 1, rs ! 6, rs ! 7}" using a by auto
  then show "set_initial_position_ref st rs ! a = st ! a" using fr by blast
qed

lemma reset_ref_kept:
  assumes "reset_ref st = (st', b)"
  shows "rows_kept st st'" and "en_passant_target_ref b = None"
    and "current_player_ref b = WHITE" and "move_history_ref b = []"
proof -
  obtain st1 rs where al: "alloc_rows st (replicate 8 (replicate 8 None)) = (st1, rs)"
    by (cases "alloc_rows st (replicate 8 (replicate 8 None))")
  from assms al have st': "st' = set_initial_position_ref st1 rs"
    and b: "b = \<lparr>board_ref = rs, en_passant_target_ref = None,
                  current_player_ref = WHITE, move_history_ref = []\<rparr>"
    by (simp_all add: reset_ref_def)
  note k = alloc_rows_kept[OF al]
  have len: "length rs = 8" using k(5) by simp
  have "st' ! a = st ! a" if "a < length st" for a
  proof -
    have "a \<notin> set rs" using that k(3) by simp
    then have "st' ! a = st1 ! a" unfolding st' by (rule set_initial_position_ref_frame(2)[OF len])
    also have "\<dots> = st ! a" using k(1) that by (simp add: rows_kept_def)
    finally show ?thesis .
  qed
  moreover have "length st \<le> length st'"
    unfolding st' set_initial_position_ref_frame(1)[OF len] using k(2) by simp
  ultimately show "rows_kept st st'" by (simp add: rows_kept_def)
  show "en_passant_target_ref b = None" "current_player_ref b = WHITE" "move_history_ref b = []"
    using b by simp_all
qed

lemma make_move_ref_frame:
  assumes "make_move_ref st self start end = (err, st', self')"
  shows "length st' = length st \<and> (\<forall>a. a \<notin> set (board_ref self) \<longrightarrow> st' ! a = st ! a)
         \<and> board_ref self' = board_ref self"
proof -
  obtain sr sc er ec where se: "start = (sr, sc)" "end = (er, ec)"
    by (cases start, cases "end")
  let ?rs = "board_ref self"
  let ?F = "\<lambda>s. length s = length st \<and> (\<forall>a. a \<notin> set ?rs \<longrightarrow> s ! a = st ! a)"
  have step: "?F s2" if "?F s1" "setitem2_ref s1 ?rs r c v = Inr s2" for s1 s2 r c v
    using that setitem2_ref_frame[OF that(2)] by simp
  have F0: "?F st" by simp
  show ?thesis
  proof (cases "getitem2_ref st ?rs sr sc")
    case (Inl e)
    then show ?thesis using assms se by (simp add: make_move_ref_def)
  next
    case (Inr po)
    show ?thesis
    proof (cases po)
      case None
      then show ?thesis using assms se Inr by (simp add: make_move_ref_def)
    next
      case (Some piece)
      note rd = Inr[unfolded Some]
      let ?w1 = "if type piece = PAWN \<and> Some (er, ec) = en_passant_target_ref self
                 then setitem2_ref st ?rs sr ec None else Inr st"
      show ?thesis
      proof (cases ?w1)
        case (Inl e)
        then show ?thesis using assms se rd by (simp add: make_move_ref_def)
      next
        case w1: (Inr st1)
        have F1: "?F st1" using w1 step[OF F0] by (auto split: if_splits)
        show ?thesis
        proof (cases "setitem2_ref st1 ?rs er ec (Some piece)")
          case (Inl e)
          then show ?thesis using assms se rd w1 F1 by (simp add: make_move_ref_def)
        next
          case w2: (Inr st2)
          have F2: "?F st2" using step[OF F1 w2] .
          show ?thesis
          proof (cases "setitem2_ref st2 ?rs sr sc None")
            case (Inl e)
            then show ?thesis using assms se rd w1 w2 F2 by (simp add: make_move_ref_def)
          next
            case w3: (Inr st3)
            have F3: "?F st3" using step[OF F2 w3] .
            let ?w4 = "if type piece = PAWN \<and> (er = 0 \<or> er = 7)
                       then setitem2_ref st3 ?rs er ec (Some \<lparr>color = color piece, type = QUEEN\<rparr>)
                       else Inr st3"
            show ?thesis
            proof (cases ?w4)
              case (Inl e)
              then show ?thesis using assms se rd w1 w2 w3 F3 by (simp add: make_move_ref_def)
            next
              case w4: (Inr st4)
              have F4: "?F st4" using w4 F3 step[OF F3] by (auto split: if_splits)
              have "make_move_ref st self start end =
                (None, st4,
                 self\<lparr>en_passant_target_ref :=
                        (if type piece = PAWN \<and> \<bar>sr - er\<bar> = 2
                         then Some (er + (sr - er) div 2, ec) else None),
                      current_player_ref :=
                        (if current_player_ref self = WHITE then BLACK else WHITE),
                      move_history_ref := move_history_ref self @ [(start, end)]\<rparr>)"
                unfolding make_move_ref_def se
                by (simp only: Let_def prod.case rd sum.case option.case w1 w2 w3 w4)
              with assms have "st' = st4" "board_ref self' = board_ref self" by auto
              then show ?thesis using F4 by simp
            qed
          qed
        qed
      qed
    qed
  qed
qed

lemma legal_loop_ref_kept:
  "rows_kept st (fst (legal_loop_ref st self piece start moves))"
proof (induction moves arbitrary: st)
  case Nil
  then show ?case by (simp add: rows_kept_refl)
next
  case (Cons move rest)
  obtain st1 temp where rs: "reset_ref st = (st1, temp)" by (cases "reset_ref st")
  obtain st2 copies where al: "alloc_rows st1 (map (\<lambda>row. st1 ! row) (board_ref self)) = (st2, copies)"
    by (cases "alloc_rows st1 (map (\<lambda>row. st1 ! row) (board_ref self))")
  let ?temp = "temp\<lparr>board_ref := copies\<rparr>"
  obtain err st3 temp' where mm: "make_move_ref st2 ?temp start move = (err, st3, temp')"
    by (cases "make_move_ref st2 ?temp start move")
  note k1 = reset_ref_kept(1)[OF rs]
  note k2 = alloc_rows_kept[OF al]
  note fr = make_move_ref_frame[OF mm]
  have k13: "rows_kept st1 st3"
  proof -
    have "st3 ! a = st1 ! a" if "a < length st1" for a
    proof -
      have "a \<notin> set copies" using that k2(3) by simp
      then have "st3 ! a = st2 ! a" using fr by simp
      also have "\<dots> = st1 ! a" using k2(1) that by (simp add: rows_kept_def)
      finally show ?thesis .
    qed
    moreover have "length st1 \<le> length st3" using fr k2(2) by simp
    ultimately show ?thesis by (simp add: rows_kept_def)
  qed
  have k3: "rows_kept st st3" using rows_kept_trans[OF k1 k13] .
  show ?case
  proof (cases err)
    case (Some e)
    then show ?thesis using rs al mm k3 by simp
  next
    case None
    have k4: "rows_kept st3 (fst (legal_loop_ref st3 self piece start rest))" by (rule Cons.IH)
    obtain st4 res where rec: "legal_loop_ref st3 self piece start rest = (st4, res)"
      by (cases "legal_loop_ref st3 self piece start rest")
    have "rows_kept st st4" using rows_kept_trans[OF k3] k4 rec by simp
    then show ?thesis using rs al mm None rec by (cases res) (simp_all add: Let_def)
  qed
qed

lemma deref_kept:
  assumes "rows_kept st st'" and "\<forall>a \<in> set (board_ref self). a < length st"
  shows "deref st' self = deref st self"
  using assms by (simp add: deref_def rows_kept_def)

text \<open>
  Claim C9. A call of \<open>get_legal_moves\<close> on a Board object whose rows are in the store
  leaves every row object that existed before the call as it was: the moves are simulated on
  rows allocated during the call. So the board \<open>self\<close> denotes is the same after the call,
  cell by cell, and its en-passant target, side to move and history, which the method never
  assigns, are the same too.
\<close>

theorem get_legal_moves_leaves_position_unchanged:
  assumes own: "\<forall>a \<in> set (board_ref self). a < length st"
    and call: "get_legal_moves_ref st self row col = (st', res)"
  shows "(\<forall>a < length st. st' ! a = st ! a)
       \<and> deref st' self = deref st self
       \<and> (\<forall>r c. get_piece (deref st' self) r c = get_piece (deref st self) r c)"
proof -
  have "rows_kept st st'"
  proof (cases "get_piece (deref st self) row col")
    case None
    then show ?thesis using call by (simp add: get_legal_moves_ref_def rows_kept_refl)
  next
    case (Some piece)
    then have "st' = fst (legal_loop_ref st self piece (row, col)
                 (Piece_get_legal_moves piece (deref st self) row col))"
      using call by (simp add: get_legal_moves_ref_def)
    then show ?thesis using legal_loop_ref_kept by simp
  qed
  then have k: "rows_kept st st'" .
  have d: "deref st' self = deref st self" using k own by (rule deref_kept)
  have "\<forall>a < length st. st' ! a = st ! a" using k unfolding rows_kept_def by blast
  then show ?thesis unfolding d by blast
qed

subsection \<open>The store-level methods compute what the value-level ones do\<close>

lemma getitem2_ref_deref:
  "getitem2_ref st rs r c = getitem2 (map (\<lambda>a. st ! a) rs) r c"
proof (cases "py_index r (length rs)")
  case None
  then show ?thesis by (simp add: getitem2_ref_def getitem2_def)
next
  case (Some i)
  then have "i < length rs" by (rule py_index_less)
  then show ?thesis using Some by (simp add: getitem2_ref_def getitem2_def split: option.splits)
qed

lemma map_nth_update_distinct:
  assumes d: "distinct rs" and i: "i < length rs" and a: "rs ! i < length st"
  shows "map (\<lambda>a. st[rs ! i := x] ! a) rs = (map (\<lambda>a. st ! a) rs)[i := x]"
proof (rule nth_equalityI)
  show "length (map (\<lambda>a. st[rs ! i := x] ! a) rs) = length ((map (\<lambda>a. st ! a) rs)[i := x])"
    by simp
next
  fix k assume "k < length (map (\<lambda>a. st[rs ! i := x] ! a) rs)"
  then have k: "k < length rs" by simp
  show "map (\<lambda>a. st[rs ! i := x] ! a) rs ! k = (map (\<lambda>a. st ! a) rs)[i := x] ! k"
  proof (cases "k = i")
    case True
    then show ?thesis using k a by simp
  next
    case False
    then have "rs ! k \<noteq> rs ! i" using d k i by (simp add: nth_eq_iff_index_eq)
    then show ?thesis using k False by simp
  qed
qed

lemma setitem2_ref_deref:
  assumes d: "distinct rs" and own: "\<forall>a \<in> set rs. a < length st"
  shows "(case setitem2_ref st rs r c v of
            Inl e \<Rightarrow> setitem2 (map (\<lambda>a. st ! a) rs) r c v = Inl e
          | Inr st' \<Rightarrow> setitem2 (map (\<lambda>a. st ! a) rs) r c v = Inr (map (\<lambda>a. st' ! a) rs))"
proof (cases "py_index r (length rs)")
  case None
  then show ?thesis by (simp add: setitem2_ref_def setitem2_def)
next
  case (Some i)
  then have i: "i < length rs" by (rule py_index_less)
  then have a: "rs ! i < length st" using own by simp
  show ?thesis
  proof (cases "py_index c (length (st ! (rs ! i)))")
    case None
    then show ?thesis using Some i by (simp add: setitem2_ref_def setitem2_def)
  next
    case j: (Some j)
    have "map (\<lambda>a. st[rs ! i := (st ! (rs ! i))[j := v]] ! a) rs
            = (map (\<lambda>a. st ! a) rs)[i := (st ! (rs ! i))[j := v]]"
      using d i a by (rule map_nth_update_distinct)
    then show ?thesis using Some j i by (simp add: setitem2_ref_def setitem2_def)
  qed
qed

lemma setitem2_ref_Inr:
  assumes d: "distinct rs" and own: "\<forall>a \<in> set rs. a < length st"
    and w: "setitem2_ref st rs r c v = Inr st'"
  shows "setitem2 (map (\<lambda>a. st ! a) rs) r c v = Inr (map (\<lambda>a. st' ! a) rs)"
    and "\<forall>a \<in> set rs. a < length st'"
proof -
  show "setitem2 (map (\<lambda>a. st ! a) rs) r c v = Inr (map (\<lambda>a. st' ! a) rs)"
    using setitem2_ref_deref[OF d own, of r c v] w by simp
  show "\<forall>a \<in> set rs. a < length st'"
    using own setitem2_ref_frame(1)[OF w] by simp
qed

lemma setitem2_ref_Inl:
  assumes d: "distinct rs" and own: "\<forall>a \<in> set rs. a < length st"
    and w: "setitem2_ref st rs r c v = Inl e"
  shows "setitem2 (map (\<lambda>a. st ! a) rs) r c v = Inl e"
  using setitem2_ref_deref[OF d own, of r c v] w by simp

lemma deref_board: "board (deref st self) = map (\<lambda>a. st ! a) (board_ref self)"
  by (simp add: deref_def)

lemma make_move_ref_deref:
  assumes d: "distinct (board_ref self)" and own: "\<forall>a \<in> set (board_ref self). a < length st"
    and call: "make_move_ref st self start end = (err, st', self')"
  shows "make_move (deref st self) start end = (err, deref st' self')"
proof -
  obtain sr sc er ec where se: "start = (sr, sc)" "end = (er, ec)"
    by (cases start, cases "end")
  let ?rs = "board_ref self"
  let ?g = "\<lambda>s. map (\<lambda>a. s ! a) ?rs"
  have rdeq: "getitem2 (?g st) sr sc = getitem2_ref st ?rs sr sc"
    by (rule getitem2_ref_deref[symmetric])
  have ep: "en_passant_target (deref st self) = en_passant_target_ref self"
    by (simp add: deref_def)
  have self_with: "(deref st self)\<lparr>board := ?g s\<rparr> = deref s self" for s
    by (simp add: deref_def)
  show ?thesis
  proof (cases "getitem2_ref st ?rs sr sc")
    case (Inl e)
    then show ?thesis using call se rdeq
      by (simp add: make_move_ref_def make_move_def deref_board)
  next
    case (Inr po)
    show ?thesis
    proof (cases po)
      case None
      then show ?thesis using call se rdeq Inr
        by (simp add: make_move_ref_def make_move_def deref_board)
    next
      case (Some piece)
      note rd = Inr[unfolded Some]
      have rdv: "getitem2 (board (deref st self)) sr sc = Inr (Some piece)"
        using rdeq rd by (simp add: deref_board)
      let ?c1 = "type piece = PAWN \<and> Some (er, ec) = en_passant_target_ref self"
      let ?w1 = "if ?c1 then setitem2_ref st ?rs sr ec None else Inr st"
      let ?v1 = "if type piece = PAWN \<and> Some (er, ec) = en_passant_target (deref st self)
                 then setitem2 (board (deref st self)) sr ec None
                 else Inr (board (deref st self))"
      let ?c4 = "type piece = PAWN \<and> (er = 0 \<or> er = 7)"
      show ?thesis
      proof (cases ?w1)
        case w1: (Inl e)
        then have c1: ?c1 by (auto split: if_splits)
        have "?v1 = Inl e"
          using w1 c1 setitem2_ref_Inl[OF d own, of sr ec None e] by (simp add: ep deref_board)
        then have "make_move (deref st self) start end = (Some e, deref st self)"
          unfolding make_move_def se by (simp only: Let_def prod.case rdv sum.case option.case)
        moreover have "make_move_ref st self start end = (Some e, st, self)"
          unfolding make_move_ref_def se
          by (simp only: Let_def prod.case rd sum.case option.case w1)
        ultimately show ?thesis using call by simp
      next
        case w1: (Inr st1)
        have v1: "?v1 = Inr (?g st1)" and own1: "\<forall>a \<in> set ?rs. a < length st1"
          using w1 setitem2_ref_Inr[OF d own, of sr ec None st1] own
          by (auto simp: ep deref_board split: if_splits)
        show ?thesis
        proof (cases "setitem2_ref st1 ?rs er ec (Some piece)")
          case w2: (Inl e)
          have v2: "setitem2 (?g st1) er ec (Some piece) = Inl e"
            using setitem2_ref_Inl[OF d own1 w2] .
          have "make_move (deref st self) start end = (Some e, (deref st self)\<lparr>board := ?g st1\<rparr>)"
            unfolding make_move_def se
            by (simp only: Let_def prod.case rdv sum.case option.case v1 v2)
          moreover have "make_move_ref st self start end = (Some e, st1, self)"
            unfolding make_move_ref_def se
            by (simp only: Let_def prod.case rd sum.case option.case w1 w2)
          ultimately show ?thesis using call by (simp add: self_with)
        next
          case w2: (Inr st2)
          note r2 = setitem2_ref_Inr[OF d own1 w2]
          show ?thesis
          proof (cases "setitem2_ref st2 ?rs sr sc None")
            case w3: (Inl e)
            have v3: "setitem2 (?g st2) sr sc None = Inl e"
              using setitem2_ref_Inl[OF d r2(2) w3] .
            have "make_move (deref st self) start end = (Some e, (deref st self)\<lparr>board := ?g st2\<rparr>)"
              unfolding make_move_def se
              by (simp only: Let_def prod.case rdv sum.case option.case v1 r2(1) v3)
            moreover have "make_move_ref st self start end = (Some e, st2, self)"
              unfolding make_move_ref_def se
              by (simp only: Let_def prod.case rd sum.case option.case w1 w2 w3)
            ultimately show ?thesis using call by (simp add: self_with)
          next
            case w3: (Inr st3)
            note r3 = setitem2_ref_Inr[OF d r2(2) w3]
            let ?w4 = "if ?c4 then setitem2_ref st3 ?rs er ec
                                     (Some \<lparr>color = color piece, type = QUEEN\<rparr>)
                       else Inr st3"
            let ?v4 = "if ?c4 then setitem2 (?g st3) er ec
                                     (Some \<lparr>color = color piece, type = QUEEN\<rparr>)
                       else Inr (?g st3)"
            show ?thesis
            proof (cases ?w4)
              case w4: (Inl e)
              then have c4: ?c4 by (auto split: if_splits)
              have v4: "?v4 = Inl e"
                using w4 c4 setitem2_ref_Inl[OF d r3(2), of er ec _ e] by simp
              have "make_move (deref st self) start end =
                      (Some e, (deref st self)\<lparr>board := ?g st3\<rparr>)"
                unfolding make_move_def se
                by (simp only: Let_def prod.case rdv sum.case option.case v1 r2(1) r3(1) v4)
              moreover have "make_move_ref st self start end = (Some e, st3, self)"
                unfolding make_move_ref_def se
                by (simp only: Let_def prod.case rd sum.case option.case w1 w2 w3 w4)
              ultimately show ?thesis using call by (simp add: self_with)
            next
              case w4: (Inr st4)
              have v4: "?v4 = Inr (?g st4)"
                using w4 setitem2_ref_Inr(1)[OF d r3(2), of er ec _ st4]
                by (auto split: if_splits)
              let ?ep' = "if type piece = PAWN \<and> \<bar>sr - er\<bar> = 2
                          then Some (er + (sr - er) div 2, ec) else None"
              have "make_move (deref st self) start end =
                      (None, (deref st self)\<lparr>board := ?g st4, en_passant_target := ?ep',
                          current_player :=
                            (if current_player (deref st self) = WHITE then BLACK else WHITE),
                          move_history := move_history (deref st self) @ [(start, end)]\<rparr>)"
                unfolding make_move_def se
                by (simp only: Let_def prod.case rdv sum.case option.case v1 r2(1) r3(1) v4)
              moreover have "make_move_ref st self start end =
                (None, st4,
                 self\<lparr>en_passant_target_ref := ?ep',
                      current_player_ref :=
                        (if current_player_ref self = WHITE then BLACK else WHITE),
                      move_history_ref := move_history_ref self @ [(start, end)]\<rparr>)"
                unfolding make_move_ref_def se
                by (simp only: Let_def prod.case rd sum.case option.case w1 w2 w3 w4)
              ultimately show ?thesis using call by (auto simp: deref_def)
            qed
          qed
        qed
      qed
    qed
  qed
qed

lemma alloc_rows_contents:
  assumes "alloc_rows st rows = (st', rs)"
  shows "map (\<lambda>a. st' ! a) rs = rows"
proof (rule nth_equalityI)
  from assms have st': "st' = st @ rows" and rs: "rs = [length st..<length st + length rows]"
    by (simp_all add: alloc_rows_def)
  show "length (map (\<lambda>a. st' ! a) rs) = length rows" using rs by simp
  fix k assume "k < length (map (\<lambda>a. st' ! a) rs)"
  then have k: "k < length rows" using rs by simp
  then have "rs ! k = length st + k" using rs by simp
  then show "map (\<lambda>a. st' ! a) rs ! k = rows ! k" using k rs st' by (simp add: nth_append)
qed

text \<open>
  \<open>Board()\<close> builds the opening position on eight distinct new rows, and \<open>make_move\<close> on
  distinct rows is \<open>make_move\<close> on the board they denote (above): the boards of the game are
  the values the theorems of the other sections are about.
\<close>

lemma write_deref:
  assumes d: "distinct rs" and k: "k < length rs" and own: "\<forall>a \<in> set rs. a < length st"
  shows "map (\<lambda>a. st[rs ! k := (st ! (rs ! k))[j := v]] ! a) rs
           = (map (\<lambda>a. st ! a) rs)[k := (map (\<lambda>a. st ! a) rs ! k)[j := v]]"
proof -
  have "rs ! k < length st" using k own by simp
  then have "map (\<lambda>a. st[rs ! k := (st ! (rs ! k))[j := v]] ! a) rs
           = (map (\<lambda>a. st ! a) rs)[k := (st ! (rs ! k))[j := v]]"
    using d k by (simp add: map_nth_update_distinct)
  then show ?thesis using k by simp
qed

lemma initial_column_deref:
  assumes d: "distinct rs" and len: "length rs = 8" and own: "\<forall>a \<in> set rs. a < length st"
  shows "map (\<lambda>a. initial_column_ref rs st col ! a) rs = initial_column (map (\<lambda>a. st ! a) rs) col"
    and "length (initial_column_ref rs st col) = length st"
proof -
  let ?v0 = "Some \<lparr>color = BLACK, type = piece_order ! col\<rparr>"
  let ?v1 = "Some \<lparr>color = BLACK, type = PAWN\<rparr>"
  let ?v6 = "Some \<lparr>color = WHITE, type = PAWN\<rparr>"
  let ?v7 = "Some \<lparr>color = WHITE, type = piece_order ! col\<rparr>"
  let ?s1 = "st[rs ! 0 := (st ! (rs ! 0))[col := ?v0]]"
  let ?s2 = "?s1[rs ! 1 := (?s1 ! (rs ! 1))[col := ?v1]]"
  let ?s3 = "?s2[rs ! 6 := (?s2 ! (rs ! 6))[col := ?v6]]"
  let ?s4 = "?s3[rs ! 7 := (?s3 ! (rs ! 7))[col := ?v7]]"
  let ?g0 = "map (\<lambda>a. st ! a) rs"
  let ?g1 = "?g0[0 := (?g0 ! 0)[col := ?v0]]"
  let ?g2 = "?g1[1 := (?g1 ! 1)[col := ?v1]]"
  let ?g3 = "?g2[6 := (?g2 ! 6)[col := ?v6]]"
  let ?g4 = "?g3[7 := (?g3 ! 7)[col := ?v7]]"
  have k: "0 < length rs" "1 < length rs" "6 < length rs" "7 < length rs" using len by simp_all
  have o1: "\<forall>a \<in> set rs. a < length ?s1" using own by simp
  have o2: "\<forall>a \<in> set rs. a < length ?s2" using own by simp
  have o3: "\<forall>a \<in> set rs. a < length ?s3" using own by simp
  have e1: "map (\<lambda>a. ?s1 ! a) rs = ?g1" using write_deref[OF d k(1) own] .
  have e2: "map (\<lambda>a. ?s2 ! a) rs = ?g2" using write_deref[OF d k(2) o1] unfolding e1 .
  have e3: "map (\<lambda>a. ?s3 ! a) rs = ?g3" using write_deref[OF d k(3) o2] unfolding e2 .
  have e4: "map (\<lambda>a. ?s4 ! a) rs = ?g4" using write_deref[OF d k(4) o3] unfolding e3 .
  have r: "initial_column_ref rs st col = ?s4" by (simp add: initial_column_ref_def Let_def)
  have v: "initial_column ?g0 col = ?g4" by (simp add: initial_column_def Let_def)
  show "map (\<lambda>a. initial_column_ref rs st col ! a) rs = initial_column ?g0 col"
    unfolding r v by (rule e4)
  show "length (initial_column_ref rs st col) = length st" unfolding r by simp
qed

lemma initial_columns_deref:
  assumes d: "distinct rs" and len: "length rs = 8" and own: "\<forall>a \<in> set rs. a < length st"
  shows "map (\<lambda>a. foldl (initial_column_ref rs) st cols ! a) rs
           = foldl initial_column (map (\<lambda>a. st ! a) rs) cols"
  using own
proof (induction cols arbitrary: st)
  case Nil
  then show ?case by simp
next
  case (Cons col cols)
  note ic = initial_column_deref[OF d len Cons.prems, of col]
  have own': "\<forall>a \<in> set rs. a < length (initial_column_ref rs st col)"
    using Cons.prems ic(2) by simp
  show ?case using Cons.IH[OF own'] ic(1) by simp
qed

lemma reset_ref_deref:
  assumes "reset_ref st = (st', b)"
  shows "deref st' b = reset" and "distinct (board_ref b)"
    and "\<forall>a \<in> set (board_ref b). a < length st'"
proof -
  obtain st1 rs where al: "alloc_rows st (replicate 8 (replicate 8 None)) = (st1, rs)"
    by (cases "alloc_rows st (replicate 8 (replicate 8 None))")
  from assms al have st': "st' = set_initial_position_ref st1 rs"
    and b: "b = \<lparr>board_ref = rs, en_passant_target_ref = None,
                  current_player_ref = WHITE, move_history_ref = []\<rparr>"
    by (simp_all add: reset_ref_def)
  note k = alloc_rows_kept[OF al]
  have len: "length rs = 8" using k(5) by simp
  have own1: "\<forall>a \<in> set rs. a < length st1" using k(3) by simp
  have c: "map (\<lambda>a. st1 ! a) rs = replicate 8 (replicate 8 None)"
    using al by (rule alloc_rows_contents)
  have "map (\<lambda>a. st' ! a) rs = set_initial_position (replicate 8 (replicate 8 None))"
    unfolding st' set_initial_position_ref_def set_initial_position_def
      initial_columns_deref[OF k(4) len own1] c by (rule refl)
  then show "deref st' b = reset" using b by (simp add: deref_def reset_def)
  show "distinct (board_ref b)" using b k(4) by simp
  show "\<forall>a \<in> set (board_ref b). a < length st'"
    unfolding st' set_initial_position_ref_frame(1)[OF len] using b own1 by simp
qed

lemma wf_grid_reset: "wf_grid (board reset)"
  by code_simp

lemma legal_loop_ref_result:
  assumes own: "\<forall>a \<in> set (board_ref self). a < length st"
  shows "snd (legal_loop_ref st self piece start moves)
           = legal_loop (deref st self) piece start moves"
  using own
proof (induction moves arbitrary: st)
  case Nil
  then show ?case by simp
next
  case (Cons move rest)
  note own = Cons.prems
  obtain st1 temp where rs: "reset_ref st = (st1, temp)" by (cases "reset_ref st")
  obtain st2 copies where al: "alloc_rows st1 (map (\<lambda>row. st1 ! row) (board_ref self)) = (st2, copies)"
    by (cases "alloc_rows st1 (map (\<lambda>row. st1 ! row) (board_ref self))")
  let ?temp = "temp\<lparr>board_ref := copies\<rparr>"
  obtain err st3 temp' where mm: "make_move_ref st2 ?temp start move = (err, st3, temp')"
    by (cases "make_move_ref st2 ?temp start move")
  note k1 = reset_ref_kept[OF rs]
  note k2 = alloc_rows_kept[OF al]
  note fr = make_move_ref_frame[OF mm]
  have self1: "map (\<lambda>row. st1 ! row) (board_ref self) = board (deref st self)"
    using k1(1) own by (simp add: deref_def rows_kept_def)
  have "map (\<lambda>a. st2 ! a) copies = board (deref st self)"
    using alloc_rows_contents[OF al] self1 by simp
  then have temp_eq: "deref st2 ?temp = reset\<lparr>board := map (\<lambda>row. row) (board (deref st self))\<rparr>"
    using k1(2,3,4) by (simp add: deref_def reset_def)
  have d: "distinct (board_ref ?temp)" using k2(4) by simp
  have o2: "\<forall>a \<in> set (board_ref ?temp). a < length st2" using k2(3) by simp
  have vm: "make_move (reset\<lparr>board := map (\<lambda>row. row) (board (deref st self))\<rparr>) start move
              = (err, deref st3 temp')"
    using make_move_ref_deref[OF d o2 mm] temp_eq by simp
  have k13: "rows_kept st1 st3"
  proof -
    have "st3 ! a = st1 ! a" if "a < length st1" for a
    proof -
      have "a \<notin> set copies" using that k2(3) by simp
      then have "st3 ! a = st2 ! a" using fr by simp
      also have "\<dots> = st1 ! a" using k2(1) that by (simp add: rows_kept_def)
      finally show ?thesis .
    qed
    moreover have "length st1 \<le> length st3" using fr k2(2) by simp
    ultimately show ?thesis by (simp add: rows_kept_def)
  qed
  have k3: "rows_kept st st3" using rows_kept_trans[OF k1(1) k13] .
  have own3: "\<forall>a \<in> set (board_ref self). a < length st3"
    using own k3 by (auto simp: rows_kept_def)
  have self3: "deref st3 self = deref st self" using k3 own by (rule deref_kept)
  have IH: "snd (legal_loop_ref st3 self piece start rest)
              = legal_loop (deref st self) piece start rest"
    using Cons.IH[OF own3] self3 by simp
  show ?case
  proof (cases err)
    case (Some e)
    then show ?thesis using rs al mm vm by simp
  next
    case None
    obtain st4 res where rec: "legal_loop_ref st3 self piece start rest = (st4, res)"
      by (cases "legal_loop_ref st3 self piece start rest")
    then have res: "legal_loop (deref st self) piece start rest = res" using IH by simp
    show ?thesis using rs al mm vm None rec res by (cases res) (simp_all add: Let_def)
  qed
qed

lemma get_legal_moves_ref_result:
  assumes own: "\<forall>a \<in> set (board_ref self). a < length st"
  shows "snd (get_legal_moves_ref st self row col) = get_legal_moves (deref st self) row col"
proof (cases "get_piece (deref st self) row col")
  case None
  then show ?thesis by (simp add: get_legal_moves_ref_def get_legal_moves_def)
next
  case (Some piece)
  then show ?thesis using legal_loop_ref_result[OF own]
    by (simp add: get_legal_moves_ref_def get_legal_moves_def)
qed

lemma legal_loop_ref_allocates:
  "length st + 8 + length (board_ref self)
     \<le> length (fst (legal_loop_ref st self piece start (move # rest)))"
proof -
  obtain st0 rs0 where a0: "alloc_rows st (replicate 8 (replicate 8 None)) = (st0, rs0)"
    by (cases "alloc_rows st (replicate 8 (replicate 8 None))")
  obtain st1 temp where rs: "reset_ref st = (st1, temp)" by (cases "reset_ref st")
  obtain st2 copies where al: "alloc_rows st1 (map (\<lambda>row. st1 ! row) (board_ref self)) = (st2, copies)"
    by (cases "alloc_rows st1 (map (\<lambda>row. st1 ! row) (board_ref self))")
  let ?temp = "temp\<lparr>board_ref := copies\<rparr>"
  obtain err st3 temp' where mm: "make_move_ref st2 ?temp start move = (err, st3, temp')"
    by (cases "make_move_ref st2 ?temp start move")
  note k0 = alloc_rows_kept[OF a0]
  have "st1 = set_initial_position_ref st0 rs0" using rs a0 by (simp add: reset_ref_def)
  then have "length st1 = length st + 8"
    using set_initial_position_ref_frame(1)[of rs0 st0] k0(2,5) by simp
  moreover have "length st2 = length st1 + length (board_ref self)"
    using alloc_rows_kept(2)[OF al] by simp
  moreover have "length st3 = length st2" using make_move_ref_frame[OF mm] by simp
  ultimately have l3: "length st3 = length st + 8 + length (board_ref self)" by simp
  show ?thesis
  proof (cases err)
    case (Some e)
    then show ?thesis using rs al mm l3 by simp
  next
    case None
    obtain st4 res where rec: "legal_loop_ref st3 self piece start rest = (st4, res)"
      by (cases "legal_loop_ref st3 self piece start rest")
    have "rows_kept st3 st4" using legal_loop_ref_kept[of st3 self piece start rest] rec by simp
    then have "length st3 \<le> length st4" by (simp add: rows_kept_def)
    then show ?thesis using rs al mm None rec l3 by (cases res) (simp_all add: Let_def)
  qed
qed

text \<open>
  The theorem for the position of claim C1, its rows at the addresses 0 to 7: the call
  returns the two moves, allocates at least sixteen rows, and the position is as before.
\<close>

theorem get_legal_moves_leaves_position_unchanged_witness:
  "deref pin_store pin_board_ref = en_passant_pin_position
   \<and> snd (get_legal_moves_ref pin_store pin_board_ref 3 4) = Inr [(2, 4), (2, 5)]
   \<and> length pin_store + 16 \<le> length (fst (get_legal_moves_ref pin_store pin_board_ref 3 4))
   \<and> deref (fst (get_legal_moves_ref pin_store pin_board_ref 3 4)) pin_board_ref
       = en_passant_pin_position"
proof -
  let ?call = "get_legal_moves_ref pin_store pin_board_ref 3 4"
  have own: "\<forall>a \<in> set (board_ref pin_board_ref). a < length pin_store" by code_simp
  have d: "deref pin_store pin_board_ref = en_passant_pin_position" by code_simp
  have v: "get_legal_moves en_passant_pin_position 3 4 = Inr [(2, 4), (2, 5)]" by code_simp
  have r: "snd ?call = Inr [(2, 4), (2, 5)]"
    using get_legal_moves_ref_result[OF own, of 3 4] d v by simp
  have p: "get_piece en_passant_pin_position 3 4 = Some \<lparr>color = WHITE, type = PAWN\<rparr>"
    by code_simp
  have m: "Piece_get_legal_moves \<lparr>color = WHITE, type = PAWN\<rparr> en_passant_pin_position 3 4
             = [(2, 4), (2, 5)]" by code_simp
  have len: "length (board_ref pin_board_ref) = 8" by code_simp
  have "?call = legal_loop_ref pin_store pin_board_ref \<lparr>color = WHITE, type = PAWN\<rparr> (3, 4)
                  [(2, 4), (2, 5)]"
    by (simp add: get_legal_moves_ref_def d p m del: legal_loop_ref.simps)
  then have g: "length pin_store + 16 \<le> length (fst ?call)"
    using legal_loop_ref_allocates[of pin_store pin_board_ref
        "\<lparr>color = WHITE, type = PAWN\<rparr>" "(3, 4)" "(2, 4)" "[(2, 5)]"] len
    by (simp del: legal_loop_ref.simps)
  have "?call = (fst ?call, snd ?call)" by simp
  from get_legal_moves_leaves_position_unchanged[OF own this]
  have "deref (fst ?call) pin_board_ref = deref pin_store pin_board_ref" by blast
  with d r g show ?thesis by simp
qed

end
